theory Spec2Isabelle
  imports Complex_Main "HOL-Library.Word" "HOL-Library.Sublist"
begin

unbundle bit_operations_syntax

section \<open>Data model (fast\_comms.h)\<close>

type_synonym u8 = "8 word"
type_synonym u16 = "16 word"
type_synonym u32 = "32 word"
type_synonym u64 = "64 word"

text \<open>
  \<^verbatim>\<open>struct PacketStats\<close>: five \<^verbatim>\<open>uint64_t\<close> counters, which wrap around, and a
  \<^verbatim>\<open>double\<close>. The double is read as a real number: what is said below about
  \<^verbatim>\<open>avg_latency_us\<close> is said up to the rounding of double arithmetic.
\<close>

record PacketStats =
  packets_sent :: u64
  packets_received :: u64
  bytes_sent :: u64
  bytes_received :: u64
  errors :: u64
  avg_latency_us :: real

definition PacketStats_init :: PacketStats where
  "PacketStats_init =
     \<lparr>packets_sent = 0, packets_received = 0, bytes_sent = 0, bytes_received = 0,
      errors = 0, avg_latency_us = 0\<rparr>"

record CommResult =
  success :: bool
  data :: "u8 list"
  latency_us :: u64
  error_message :: string

definition CommResult_init :: CommResult where
  "CommResult_init = \<lparr>success = False, data = [], latency_us = 0, error_message = []\<rparr>"

text \<open>
  The private members of \<^verbatim>\<open>class FastComms\<close>. The source names them with a trailing
  underscore (\<^verbatim>\<open>socket_fd_\<close>), which is not a legal constant name here, so it is dropped.
\<close>

record FastComms =
  interface_name :: string
  timeout_ms :: u32
  socket_fd :: int
  initialized :: bool
  stats :: PacketStats

section \<open>The host: system calls and the clock\<close>

text \<open>
  Every interaction with the host is recorded, newest first, with the arguments the code
  passed and the result the host gave. The host itself is a family of oracles: what the
  \<open>i\<close>-th interaction returns if it is a call of that kind (\<open>i\<close> counts all interactions
  made so far, so it is the length of the record). Nothing is assumed about the oracles;
  theorems quantify over them. \<^verbatim>\<open>send\<close> returns an \<^verbatim>\<open>ssize_t\<close>: negative on error, else
  the number of bytes accepted. \<^verbatim>\<open>recv\<close> either fails with an \<^verbatim>\<open>errno\<close> or delivers a
  frame, of which at most \<^verbatim>\<open>max_size\<close> bytes reach the buffer.
\<close>

datatype recv_result = Recv_error int | Recv_frame "u8 list"

datatype event =
    Clock u64
  | Socket int
  | Ioctl_ifindex int string int
  | Bind int int
  | Setsockopt_rcvtimeo int u32 u32 int
  | Close int
  | Send int "u8 list" int
  | Recv int nat int

type_synonym world = "event list"

record kernel =
  k_clock :: "nat \<Rightarrow> u64"
  k_socket :: "nat \<Rightarrow> int"
  k_ioctl :: "nat \<Rightarrow> int"
  k_bind :: "nat \<Rightarrow> int"
  k_setsockopt :: "nat \<Rightarrow> int"
  k_send :: "nat \<Rightarrow> int"
  k_recv :: "nat \<Rightarrow> recv_result"

text \<open>The values of \<^verbatim>\<open><errno.h>\<close> on Linux, where both names are the same number.\<close>

definition EAGAIN :: int where
  "EAGAIN = 11"

definition EWOULDBLOCK :: int where
  "EWOULDBLOCK = 11"

text \<open>\<^verbatim>\<open>IFNAMSIZ\<close> of \<^verbatim>\<open><net/if.h>\<close>.\<close>

definition IFNAMSIZ :: nat where
  "IFNAMSIZ = 16"

section \<open>FastComms (fast\_comms.cpp)\<close>

text \<open>
  Each member function takes the object and the record and returns them updated, after
  its own result. The constructor is \<open>FastComms_new\<close>. The messages written to
  \<^verbatim>\<open>std::cerr\<close> and \<^verbatim>\<open>std::cout\<close> are not modelled, and memory allocation is taken to
  succeed. Sizes (\<^verbatim>\<open>size_t\<close>) are natural numbers, a descriptor and the results of the
  system calls are integers.
\<close>

definition FastComms_new :: "string \<Rightarrow> u32 \<Rightarrow> FastComms" where
  "FastComms_new name timeout =
     \<lparr>interface_name = name, timeout_ms = timeout, socket_fd = - 1, initialized = False,
      stats = PacketStats_init\<rparr>"

definition get_timestamp_us :: "kernel \<Rightarrow> world \<Rightarrow> u64 \<times> world" where
  "get_timestamp_us k w = (k_clock k (length w), Clock (k_clock k (length w)) # w)"

definition create_raw_socket :: "kernel \<Rightarrow> world \<Rightarrow> int \<times> world" where
  "create_raw_socket k w =
     (let sockfd = k_socket k (length w); w1 = Socket sockfd # w
      in if sockfd < 0 then (- 1, w1) else (sockfd, w1))"

text \<open>
  \<^verbatim>\<open>strncpy(ifr.ifr_name, interface_name_.c_str(), IFNAMSIZ - 1)\<close> copies up to the first
  NUL and at most 15 characters.
\<close>

definition bind_to_interface :: "kernel \<Rightarrow> FastComms \<Rightarrow> world \<Rightarrow> int \<times> world" where
  "bind_to_interface k fc w =
     (let ifr_name = take (IFNAMSIZ - 1) (takeWhile (\<lambda>c. c \<noteq> CHR 0x00) (interface_name fc));
          r = k_ioctl k (length w);
          w1 = Ioctl_ifindex (socket_fd fc) ifr_name r # w
      in if r < 0 then (- 1, w1)
         else let b = k_bind k (length w1);
                  w2 = Bind (socket_fd fc) b # w1
              in if b < 0 then (- 1, w2) else (0, w2))"

definition initialize :: "kernel \<Rightarrow> FastComms \<times> world \<Rightarrow> bool \<times> FastComms \<times> world" where
  "initialize k s =
     (case s of (fc, w) \<Rightarrow>
        if initialized fc then (True, fc, w)
        else let (fd, w1) = create_raw_socket k w;
                 fc1 = fc\<lparr>socket_fd := fd\<rparr>
             in if socket_fd fc1 < 0 then (False, fc1, w1)
                else let (b, w2) = bind_to_interface k fc1 w1
                     in if b < 0
                        then (False, fc1\<lparr>socket_fd := - 1\<rparr>, Close (socket_fd fc1) # w2)
                        else let tv_sec = timeout_ms fc1 div 1000;
                                 tv_usec = (timeout_ms fc1 mod 1000) * 1000;
                                 r = k_setsockopt k (length w2);
                                 w3 = Setsockopt_rcvtimeo (socket_fd fc1) tv_sec tv_usec r # w2
                             in (True, fc1\<lparr>initialized := True\<rparr>, w3))"

definition close :: "FastComms \<times> world \<Rightarrow> FastComms \<times> world" where
  "close s =
     (case s of (fc, w) \<Rightarrow>
        if 0 \<le> socket_fd fc
        then (fc\<lparr>socket_fd := - 1, initialized := False\<rparr>, Close (socket_fd fc) # w)
        else (fc\<lparr>initialized := False\<rparr>, w))"

text \<open>The destructor \<^verbatim>\<open>~FastComms\<close> calls \<^verbatim>\<open>close()\<close>.\<close>

definition destroy :: "FastComms \<times> world \<Rightarrow> FastComms \<times> world" where
  "destroy s = close s"

definition update_stats :: "bool \<Rightarrow> u64 \<Rightarrow> u64 \<Rightarrow> PacketStats \<Rightarrow> PacketStats" where
  "update_stats sent bytes latency st =
     (let st1 = (if sent
                 then st\<lparr>packets_sent := packets_sent st + 1,
                         bytes_sent := bytes_sent st + bytes\<rparr>
                 else st\<lparr>packets_received := packets_received st + 1,
                         bytes_received := bytes_received st + bytes\<rparr>)
      in if 0 < latency
         then st1\<lparr>avg_latency_us := avg_latency_us st1 * 0.9 + real (unat latency) * 0.1\<rparr>
         else st1)"

definition send_packet ::
  "kernel \<Rightarrow> u8 list \<Rightarrow> FastComms \<times> world \<Rightarrow> bool \<times> FastComms \<times> world" where
  "send_packet k dat s =
     (case s of (fc, w) \<Rightarrow>
        if \<not> initialized fc \<or> socket_fd fc < 0 then (False, fc, w)
        else let (start_time, w1) = get_timestamp_us k w;
                 sent = k_send k (length w1);
                 w2 = Send (socket_fd fc) dat sent # w1
             in if sent < 0
                then (False, fc\<lparr>stats := (stats fc)\<lparr>errors := errors (stats fc) + 1\<rparr>\<rparr>, w2)
                else let (now, w3) = get_timestamp_us k w2;
                         latency = now - start_time
                     in (sent = int (length dat),
                         fc\<lparr>stats := update_stats True (word_of_int sent) latency (stats fc)\<rparr>,
                         w3))"

text \<open>\<^verbatim>\<open>std::vector::resize\<close>: truncate, or pad with zero bytes.\<close>

definition resize :: "nat \<Rightarrow> u8 list \<Rightarrow> u8 list" where
  "resize n xs = take n xs @ replicate (n - length xs) 0"

text \<open>The conversion of an \<^verbatim>\<open>ssize_t\<close> to the \<^verbatim>\<open>int\<close> that \<^verbatim>\<open>receive_packet\<close> returns.\<close>

definition to_int32 :: "int \<Rightarrow> int" where
  "to_int32 x = sint (word_of_int x :: 32 word)"

definition receive_packet ::
  "kernel \<Rightarrow> u8 list \<Rightarrow> nat \<Rightarrow> FastComms \<times> world \<Rightarrow> int \<times> u8 list \<times> FastComms \<times> world" where
  "receive_packet k buffer max_size s =
     (case s of (fc, w) \<Rightarrow>
        if \<not> initialized fc \<or> socket_fd fc < 0 then (- 1, buffer, fc, w)
        else let buffer1 = resize max_size buffer
             in (case k_recv k (length w) of
                   Recv_error errno \<Rightarrow>
                     (let w1 = Recv (socket_fd fc) max_size (- 1) # w
                      in if errno = EAGAIN \<or> errno = EWOULDBLOCK then (0, buffer1, fc, w1)
                         else (- 1, buffer1,
                               fc\<lparr>stats := (stats fc)\<lparr>errors := errors (stats fc) + 1\<rparr>\<rparr>, w1))
                 | Recv_frame frame \<Rightarrow>
                     (let received = min (length frame) max_size;
                          buffer2 = take received frame @ drop received buffer1;
                          w1 = Recv (socket_fd fc) max_size (int received) # w;
                          buffer3 = resize received buffer2
                      in (to_int32 (int received), buffer3,
                          fc\<lparr>stats := update_stats False (word_of_nat received) 0 (stats fc)\<rparr>,
                          w1))))"

definition send_and_receive ::
  "kernel \<Rightarrow> u8 list \<Rightarrow> u8 list \<Rightarrow> FastComms \<times> world
     \<Rightarrow> CommResult \<times> u8 list \<times> FastComms \<times> world" where
  "send_and_receive k request response s =
     (case s of (fc, w) \<Rightarrow>
        let result = CommResult_init;
            (start_time, w1) = get_timestamp_us k w;
            (ok, fc2, w2) = send_packet k request (fc, w1)
        in if \<not> ok
           then (result\<lparr>error_message := ''Failed to send request''\<rparr>, response, fc2, w2)
           else let (received, response3, fc3, w3) = receive_packet k response 4096 (fc2, w2)
                in if received < 0
                   then (result\<lparr>error_message := ''Failed to receive response''\<rparr>,
                         response3, fc3, w3)
                   else if received = 0
                   then (result\<lparr>error_message := ''Response timeout''\<rparr>, response3, fc3, w3)
                   else let (now, w4) = get_timestamp_us k w3
                        in (result\<lparr>success := True, data := response3,
                                   latency_us := now - start_time\<rparr>,
                            response3, fc3, w4))"

text \<open>The range-based \<^verbatim>\<open>for\<close> loop of \<^verbatim>\<open>burst_send\<close>, with its counter.\<close>

fun burst_loop ::
  "kernel \<Rightarrow> u8 list list \<Rightarrow> int \<Rightarrow> FastComms \<times> world \<Rightarrow> int \<times> FastComms \<times> world" where
  "burst_loop k [] sent_count s = (sent_count, s)"
| "burst_loop k (packet # packets) sent_count s =
     (let (ok, s1) = send_packet k packet s
      in burst_loop k packets (if ok then sent_count + 1 else sent_count) s1)"

definition burst_send ::
  "kernel \<Rightarrow> u8 list list \<Rightarrow> FastComms \<times> world \<Rightarrow> int \<times> FastComms \<times> world" where
  "burst_send k packets s = burst_loop k packets 0 s"

definition measure_latency ::
  "kernel \<Rightarrow> u8 list \<Rightarrow> FastComms \<times> world \<Rightarrow> int \<times> FastComms \<times> world" where
  "measure_latency k payload s =
     (let (result, response, s1) = send_and_receive k payload [] s
      in if success result then (sint (latency_us result), s1) else (- 1, s1))"

text \<open>
  The loop of \<^verbatim>\<open>stress_test\<close> runs until a clock reading is not below \<^verbatim>\<open>end_time\<close>; on
  a clock that never gets there it does not return, which is the value \<open>None\<close>.
\<close>

partial_function (option) stress_loop ::
  "kernel \<Rightarrow> u64 \<Rightarrow> u8 list \<Rightarrow> nat \<Rightarrow> PacketStats \<times> FastComms \<times> world
     \<Rightarrow> (PacketStats \<times> FastComms \<times> world) option" where
  "stress_loop k end_time test_packet packet_size s =
     (case s of (test_stats, fc, w) \<Rightarrow>
        let (now, w1) = get_timestamp_us k w
        in if now < end_time
           then let (ok, fc2, w2) = send_packet k test_packet (fc, w1)
                in stress_loop k end_time test_packet packet_size
                     (if ok
                      then test_stats\<lparr>packets_sent := packets_sent test_stats + 1,
                                      bytes_sent := bytes_sent test_stats + word_of_nat packet_size\<rparr>
                      else test_stats\<lparr>errors := errors test_stats + 1\<rparr>,
                      fc2, w2)
           else Some (test_stats, fc, w1))"

text \<open>
  \<^verbatim>\<open>duration_ms * 1000\<close> is a product of \<^verbatim>\<open>uint32_t\<close> and \<^verbatim>\<open>int\<close>, computed in 32 bits
  and only then widened to 64. The throughput line printed at the end is not modelled;
  the clock reading taken for it is.
\<close>

definition stress_test ::
  "kernel \<Rightarrow> u32 \<Rightarrow> nat \<Rightarrow> FastComms \<times> world \<Rightarrow> (PacketStats \<times> FastComms \<times> world) option" where
  "stress_test k duration_ms packet_size s =
     (case s of (fc, w) \<Rightarrow>
        let test_stats = PacketStats_init;
            test_packet = replicate packet_size (0xAA :: u8);
            (start_time, w1) = get_timestamp_us k w;
            end_time = start_time + ucast (duration_ms * 1000)
        in (case stress_loop k end_time test_packet packet_size (test_stats, fc, w1) of
              None \<Rightarrow> None
            | Some (test_stats1, fc1, w2) \<Rightarrow>
                (let (now, w3) = get_timestamp_us k w2
                 in Some (test_stats1, fc1, w3))))"

definition get_statistics :: "FastComms \<Rightarrow> PacketStats" where
  "get_statistics fc = stats fc"

definition reset_statistics :: "FastComms \<Rightarrow> FastComms" where
  "reset_statistics fc = fc\<lparr>stats := PacketStats_init\<rparr>"

definition set_timeout :: "kernel \<Rightarrow> u32 \<Rightarrow> FastComms \<times> world \<Rightarrow> FastComms \<times> world" where
  "set_timeout k timeout s =
     (case s of (fc, w) \<Rightarrow>
        let fc1 = fc\<lparr>timeout_ms := timeout\<rparr>
        in if initialized fc1 \<and> 0 \<le> socket_fd fc1
           then let tv_sec = timeout_ms fc1 div 1000;
                    tv_usec = (timeout_ms fc1 mod 1000) * 1000;
                    r = k_setsockopt k (length w)
                in (fc1, Setsockopt_rcvtimeo (socket_fd fc1) tv_sec tv_usec r # w)
           else (fc1, w))"

definition is_ready :: "FastComms \<Rightarrow> bool" where
  "is_ready fc = (initialized fc \<and> 0 \<le> socket_fd fc)"

subsection \<open>Sequences of operations\<close>

text \<open>
  One constructor per public member function, with the arguments of the call. A sequence
  runs from left to right; it has no final state when a \<^verbatim>\<open>stress_test\<close> in it does not
  return.
\<close>

datatype operation =
    Op_initialize
  | Op_close
  | Op_send_packet "u8 list"
  | Op_receive_packet "u8 list" nat
  | Op_send_and_receive "u8 list" "u8 list"
  | Op_burst_send "u8 list list"
  | Op_measure_latency "u8 list"
  | Op_stress_test u32 nat
  | Op_get_statistics
  | Op_reset_statistics
  | Op_set_timeout u32
  | Op_is_ready
  | Op_destroy

fun exec :: "kernel \<Rightarrow> operation \<Rightarrow> FastComms \<times> world \<Rightarrow> (FastComms \<times> world) option" where
  "exec k Op_initialize s = Some (snd (initialize k s))"
| "exec k Op_close s = Some (close s)"
| "exec k (Op_send_packet dat) s = Some (snd (send_packet k dat s))"
| "exec k (Op_receive_packet buffer max_size) s =
     Some (snd (snd (receive_packet k buffer max_size s)))"
| "exec k (Op_send_and_receive request response) s =
     Some (snd (snd (send_and_receive k request response s)))"
| "exec k (Op_burst_send packets) s = Some (snd (burst_send k packets s))"
| "exec k (Op_measure_latency payload) s = Some (snd (measure_latency k payload s))"
| "exec k (Op_stress_test duration_ms packet_size) s =
     map_option snd (stress_test k duration_ms packet_size s)"
| "exec k Op_get_statistics s = Some s"
| "exec k Op_reset_statistics s = Some (reset_statistics (fst s), snd s)"
| "exec k (Op_set_timeout timeout) s = Some (set_timeout k timeout s)"
| "exec k Op_is_ready s = Some s"
| "exec k Op_destroy s = Some (destroy s)"

fun run :: "kernel \<Rightarrow> operation list \<Rightarrow> FastComms \<times> world \<Rightarrow> (FastComms \<times> world) option" where
  "run k [] s = Some s"
| "run k (op # ops) s = (case exec k op s of None \<Rightarrow> None | Some s1 \<Rightarrow> run k ops s1)"

subsection \<open>What the record of system calls says about the traffic\<close>

text \<open>
  A \<^verbatim>\<open>send\<close> or \<^verbatim>\<open>recv\<close> that returned a non-negative count is one packet of that many
  bytes. The totals over a record are natural numbers, without wrap-around.
\<close>

fun packets_of_send :: "event \<Rightarrow> nat" where
  "packets_of_send (Send fd dat n) = (if 0 \<le> n then 1 else 0)"
| "packets_of_send e = 0"

fun bytes_of_send :: "event \<Rightarrow> nat" where
  "bytes_of_send (Send fd dat n) = nat n"
| "bytes_of_send e = 0"

fun packets_of_recv :: "event \<Rightarrow> nat" where
  "packets_of_recv (Recv fd max_size n) = (if 0 \<le> n then 1 else 0)"
| "packets_of_recv e = 0"

fun bytes_of_recv :: "event \<Rightarrow> nat" where
  "bytes_of_recv (Recv fd max_size n) = nat n"
| "bytes_of_recv e = 0"

definition total :: "(event \<Rightarrow> nat) \<Rightarrow> world \<Rightarrow> nat" where
  "total f w = sum_list (map f w)"

text \<open>No \<^verbatim>\<open>send\<close> and no \<^verbatim>\<open>recv\<close> returned 0.\<close>

fun no_zero_io :: "event \<Rightarrow> bool" where
  "no_zero_io (Send fd dat n) = (n \<noteq> 0)"
| "no_zero_io (Recv fd max_size n) = (n \<noteq> 0)"
| "no_zero_io e = True"

subsection \<open>Relations between two states, used in the proofs\<close>

text \<open>The descriptor and the flag are the same in both.\<close>

definition same_handle :: "FastComms \<Rightarrow> FastComms \<Rightarrow> bool" where
  "same_handle fc fc1 \<longleftrightarrow> initialized fc1 = initialized fc \<and> socket_fd fc1 = socket_fd fc"

definition handle_agrees :: "FastComms \<Rightarrow> bool" where
  "handle_agrees fc \<longleftrightarrow> (initialized fc \<longleftrightarrow> 0 \<le> socket_fd fc)"

text \<open>
  Each counter minus what the record says, in 64 bits. An operation that only counts what
  it sends and receives leaves these four differences as they are and only adds to the
  record.
\<close>

definition balance :: "FastComms \<times> world \<Rightarrow> u64 \<times> u64 \<times> u64 \<times> u64" where
  "balance s =
     (packets_sent (stats (fst s)) - word_of_nat (total packets_of_send (snd s)),
      bytes_sent (stats (fst s)) - word_of_nat (total bytes_of_send (snd s)),
      packets_received (stats (fst s)) - word_of_nat (total packets_of_recv (snd s)),
      bytes_received (stats (fst s)) - word_of_nat (total bytes_of_recv (snd s)))"

definition accounted :: "FastComms \<times> world \<Rightarrow> FastComms \<times> world \<Rightarrow> bool" where
  "accounted s s1 \<longleftrightarrow> suffix (snd s) (snd s1) \<and> balance s1 = balance s"

text \<open>
  A relation between the state before and the state after that holds across a clock
  reading, across \<^verbatim>\<open>send_packet\<close> and across \<^verbatim>\<open>receive_packet\<close>, and that composes,
  holds across every operation built from these three.
\<close>

definition step_relation ::
  "(FastComms \<times> world \<Rightarrow> FastComms \<times> world \<Rightarrow> bool) \<Rightarrow> bool" where
  "step_relation R \<longleftrightarrow>
     (\<forall>s. R s s) \<and>
     (\<forall>a b c. R a b \<longrightarrow> R b c \<longrightarrow> R a c) \<and>
     (\<forall>fc w c. R (fc, w) (fc, Clock c # w)) \<and>
     (\<forall>k dat fc w. R (fc, w) (snd (send_packet k dat (fc, w)))) \<and>
     (\<forall>k buffer max_size fc w.
        R (fc, w) (snd (snd (receive_packet k buffer max_size (fc, w)))))"

fun data_plane :: "operation \<Rightarrow> bool" where
  "data_plane Op_initialize = False"
| "data_plane Op_close = False"
| "data_plane Op_reset_statistics = False"
| "data_plane (Op_set_timeout t) = False"
| "data_plane Op_destroy = False"
| "data_plane op = True"

section \<open>PacketValidator (fast\_comms.cpp)\<close>

text \<open>One turn of the inner loop of \<^verbatim>\<open>calculate_crc32\<close>.\<close>

definition crc_bit :: "u32 \<Rightarrow> u32" where
  "crc_bit crc = (if crc AND 1 \<noteq> 0 then drop_bit 1 crc XOR 0xEDB88320 else drop_bit 1 crc)"

definition crc_byte :: "u32 \<Rightarrow> u8 \<Rightarrow> u32" where
  "crc_byte crc byte = (crc_bit ^^ 8) (crc XOR ucast byte)"

definition calculate_crc32 :: "u8 list \<Rightarrow> u32" where
  "calculate_crc32 dat = NOT (foldl crc_byte 0xFFFFFFFF dat)"

definition verify_packet :: "u8 list \<Rightarrow> u32 \<Rightarrow> bool" where
  "verify_packet packet expected_crc = (calculate_crc32 packet = expected_crc)"

text \<open>
  The \<^verbatim>\<open>for\<close> loop of \<^verbatim>\<open>calculate_simple_checksum\<close>, with its index and its 32-bit
  accumulator \<^verbatim>\<open>sum\<close> (here \<open>acc\<close>).
\<close>

function checksum_loop :: "u8 list \<Rightarrow> nat \<Rightarrow> u32 \<Rightarrow> u32" where
  "checksum_loop dat i acc =
     (if i < length dat
      then let word0 = (push_bit 8 (ucast (dat ! i)) :: u16);
               word1 = (if i + 1 < length dat then word0 OR ucast (dat ! (i + 1)) else word0)
           in checksum_loop dat (i + 2) (acc + ucast word1)
      else acc)"
  by pat_completeness auto
termination
  by (relation "measure (\<lambda>(dat, i, acc). length dat - i)") auto

declare checksum_loop.simps [simp del]

text \<open>The \<^verbatim>\<open>while (sum >> 16)\<close> loop.\<close>

lemma unat_low16: "unat ((acc::u32) AND 0xFFFF) = unat acc mod 65536"
proof -
  have "(acc AND 0xFFFF) = take_bit 16 acc"
    by (simp add: take_bit_eq_mask mask_eq_exp_minus_1)
  then show ?thesis by (simp add: unsigned_take_bit_eq take_bit_nat_def)
qed

lemma unat_high16: "unat (drop_bit 16 (acc::u32)) = unat acc div 65536"
  by (simp add: drop_bit_eq_div unat_div)

lemma fold_carries_decreases:
  fixes acc :: u32
  assumes "drop_bit 16 acc \<noteq> 0"
  shows "unat ((acc AND 0xFFFF) + drop_bit 16 acc) < unat acc"
proof -
  have "unat acc div 65536 \<noteq> 0"
    using assms unat_high16 [of acc] by (metis unsigned_eq_0_iff)
  moreover have "unat ((acc AND 0xFFFF) + drop_bit 16 acc)
                   \<le> unat (acc AND 0xFFFF) + unat (drop_bit 16 acc)"
    by (simp add: unat_word_ariths)
  moreover have "unat acc = 65536 * (unat acc div 65536) + unat acc mod 65536"
    by simp
  ultimately show ?thesis
    unfolding unat_low16 unat_high16 by linarith
qed

function fold_carries :: "u32 \<Rightarrow> u32" where
  "fold_carries acc =
     (if drop_bit 16 acc \<noteq> 0 then fold_carries ((acc AND 0xFFFF) + drop_bit 16 acc) else acc)"
  by pat_completeness auto
termination
proof (relation "measure unat")
  show "wf (measure unat)" by simp
next
  fix acc :: u32
  assume "drop_bit 16 acc \<noteq> 0"
  then show "((acc AND 0xFFFF) + drop_bit 16 acc, acc) \<in> measure unat"
    by (simp add: fold_carries_decreases)
qed

declare fold_carries.simps [simp del]

definition calculate_simple_checksum :: "u8 list \<Rightarrow> u16" where
  "calculate_simple_checksum dat = ucast (NOT (fold_carries (checksum_loop dat 0 0)) AND 0xFFFF)"

subsection \<open>Reference definitions\<close>

text \<open>
  The reflected CRC-32 as a shift register: the message is a stream of bits, the least
  significant bit of each byte first; the register starts at \<open>0xFFFFFFFF\<close>, moves right
  by one place per message bit, and is combined with the reflected polynomial
  \<open>0xEDB88320\<close> whenever the bit that leaves it differs from the message bit; the final
  register is combined with \<open>0xFFFFFFFF\<close>.
\<close>

definition lfsr_step :: "u32 \<Rightarrow> bool \<Rightarrow> u32" where
  "lfsr_step reg b = (if bit reg 0 \<noteq> b then drop_bit 1 reg XOR 0xEDB88320 else drop_bit 1 reg)"

definition message_bits :: "u8 list \<Rightarrow> bool list" where
  "message_bits dat = concat (map (\<lambda>byte. map (bit byte) [0..<8]) dat)"

definition crc32_reflected :: "u8 list \<Rightarrow> u32" where
  "crc32_reflected dat = foldl lfsr_step 0xFFFFFFFF (message_bits dat) XOR 0xFFFFFFFF"

text \<open>
  The Internet checksum: the bytes are read as big-endian 16-bit words, a last odd byte
  being the high half of a word whose low half is zero; the words are added as natural
  numbers; the carries above 16 bits are added back in until none is left; the result is
  complemented in 16 bits.
\<close>

fun be_words :: "u8 list \<Rightarrow> nat list" where
  "be_words [] = []"
| "be_words [a] = [256 * unat a]"
| "be_words (a # b # rest) = (256 * unat a + unat b) # be_words rest"

function end_around_carry :: "nat \<Rightarrow> nat" where
  "end_around_carry n =
     (if n < 65536 then n else end_around_carry (n mod 65536 + n div 65536))"
  by pat_completeness auto
termination
proof (relation "measure id")
  show "wf (measure id)" by simp
next
  fix n :: nat
  assume "\<not> n < 65536"
  moreover have "n = 65536 * (n div 65536) + n mod 65536" by simp
  ultimately have "n mod 65536 + n div 65536 < n" by linarith
  then show "(n mod 65536 + n div 65536, n) \<in> measure id" by simp
qed

declare end_around_carry.simps [simp del]

definition internet_checksum :: "u8 list \<Rightarrow> u16" where
  "internet_checksum dat = NOT (word_of_nat (end_around_carry (sum_list (be_words dat))))"

section \<open>Example host and endpoint\<close>

text \<open>
  A host whose clock advances by 10 microseconds per interaction, whose \<^verbatim>\<open>socket\<close> returns
  descriptor 3, whose \<^verbatim>\<open>ioctl\<close>, \<^verbatim>\<open>bind\<close> and \<^verbatim>\<open>setsockopt\<close> succeed, and whose
  \<^verbatim>\<open>send\<close> and \<^verbatim>\<open>recv\<close> always answer as given; and an endpoint that is open on it.
\<close>

definition host_example :: "int \<Rightarrow> recv_result \<Rightarrow> kernel" where
  "host_example sent rcv =
     \<lparr>k_clock = (\<lambda>i. word_of_nat (10 * i)), k_socket = (\<lambda>i. 3), k_ioctl = (\<lambda>i. 0),
      k_bind = (\<lambda>i. 0), k_setsockopt = (\<lambda>i. 0), k_send = (\<lambda>i. sent), k_recv = (\<lambda>i. rcv)\<rparr>"

definition open_endpoint :: FastComms where
  "open_endpoint =
     \<lparr>interface_name = ''eth0'', timeout_ms = 1000, socket_fd = 3, initialized = True,
      stats = PacketStats_init\<rparr>"


section \<open>Properties of the endpoint\<close>

lemma replicate_numeral: "replicate (numeral n) x = x # replicate (pred_numeral n) x"
  by (simp add: numeral_eq_Suc)

lemma update_stats_sent:
  "packets_sent (update_stats True b l st) = packets_sent st + 1"
  "bytes_sent (update_stats True b l st) = bytes_sent st + b"
  "packets_received (update_stats True b l st) = packets_received st"
  "bytes_received (update_stats True b l st) = bytes_received st"
  "errors (update_stats True b l st) = errors st"
  by (simp_all add: update_stats_def Let_def)

lemma update_stats_received:
  "packets_sent (update_stats False b 0 st) = packets_sent st"
  "bytes_sent (update_stats False b 0 st) = bytes_sent st"
  "packets_received (update_stats False b 0 st) = packets_received st + 1"
  "bytes_received (update_stats False b 0 st) = bytes_received st + b"
  "errors (update_stats False b 0 st) = errors st"
  by (simp_all add: update_stats_def Let_def)

lemma accepted_count_unique:
  assumes "0 \<le> n" and "n < 2 ^ 63" and "length dat < 2 ^ 64"
      and "(word_of_int n :: u64) = word_of_nat (length dat)"
  shows "n = int (length dat)"
proof -
  have "(word_of_nat (nat n) :: u64) = word_of_nat (length dat)"
    using assms(1,4) by simp
  then have "unat (word_of_nat (nat n) :: u64) = unat (word_of_nat (length dat) :: u64)"
    by simp
  moreover have "nat n < 2 ^ 64"
    using assms(1,2) by (simp add: nat_less_iff)
  ultimately have "nat n = length dat"
    using assms(3) by (simp add: unat_of_nat)
  then show ?thesis using assms(1) by simp
qed

text \<open>
  With \<open>w\<close> the record so far, \<^verbatim>\<open>send_packet\<close> on an open endpoint reads the clock
  (interaction number \<open>length w\<close>), calls \<^verbatim>\<open>send\<close> (number \<open>length w + 1\<close>) and, unless
  \<^verbatim>\<open>send\<close> failed, reads the clock again (number \<open>length w + 2\<close>).
\<close>

lemma send_packet_closed:
  "\<not> initialized fc \<or> socket_fd fc < 0 \<Longrightarrow> send_packet k dat (fc, w) = (False, fc, w)"
  by (simp add: send_packet_def)

lemma send_packet_rejected:
  "initialized fc \<Longrightarrow> 0 \<le> socket_fd fc \<Longrightarrow> k_send k (Suc (length w)) < 0 \<Longrightarrow>
   send_packet k dat (fc, w) =
     (False, fc\<lparr>stats := (stats fc)\<lparr>errors := errors (stats fc) + 1\<rparr>\<rparr>,
      Send (socket_fd fc) dat (k_send k (Suc (length w))) # Clock (k_clock k (length w)) # w)"
  by (simp add: send_packet_def get_timestamp_us_def Let_def)

lemma send_packet_accepted:
  "initialized fc \<Longrightarrow> 0 \<le> socket_fd fc \<Longrightarrow> 0 \<le> k_send k (Suc (length w)) \<Longrightarrow>
   send_packet k dat (fc, w) =
     (k_send k (Suc (length w)) = int (length dat),
      fc\<lparr>stats := update_stats True (word_of_int (k_send k (Suc (length w))))
                     (k_clock k (Suc (Suc (length w))) - k_clock k (length w)) (stats fc)\<rparr>,
      Clock (k_clock k (Suc (Suc (length w)))) #
      Send (socket_fd fc) dat (k_send k (Suc (length w))) # Clock (k_clock k (length w)) # w)"
  by (simp add: send_packet_def get_timestamp_us_def Let_def)

lemma to_int32_small: "0 \<le> x \<Longrightarrow> x < 2 ^ 31 \<Longrightarrow> to_int32 x = x"
  unfolding to_int32_def
  by (simp add: sint_sbintrunc' signed_take_bit_int_eq_self)

lemma receive_packet_positive:
  assumes "receive_packet k buffer 4096 (fc, w) = (received, buffer3, fc3, w3)"
      and "0 < received"
  shows "\<exists>frame. k_recv k (length w) = Recv_frame frame \<and> buffer3 = take 4096 frame \<and>
                 received = int (length buffer3)"
  using assms
  by (auto simp: receive_packet_def Let_def resize_def to_int32_small min_def
        EAGAIN_def EWOULDBLOCK_def split: if_splits recv_result.splits)

lemma receive_packet_frame:
  assumes "initialized fc" and "0 \<le> socket_fd fc" and "k_recv k (length w) = Recv_frame frame"
  shows "receive_packet k buffer max_size (fc, w) =
           (to_int32 (int (min (length frame) max_size)), take max_size frame,
            fc\<lparr>stats := update_stats False (word_of_nat (min (length frame) max_size)) 0
                           (stats fc)\<rparr>,
            Recv (socket_fd fc) max_size (int (min (length frame) max_size)) # w)"
  using assms by (simp add: receive_packet_def Let_def resize_def min_def)

subsection \<open>Receiving\<close>

text \<open>
  C3 (as amended). On an open endpoint, when \<^verbatim>\<open>recv\<close> fails with \<^verbatim>\<open>EAGAIN\<close> or
  \<^verbatim>\<open>EWOULDBLOCK\<close>, \<^verbatim>\<open>receive_packet\<close> returns 0 and changes no statistic; when it
  fails with any other error, \<^verbatim>\<open>receive_packet\<close> returns -1 and adds exactly 1 to
  \<^verbatim>\<open>errors\<close>. In both cases the caller's buffer comes back resized to \<^verbatim>\<open>max_size\<close>
  (its first bytes kept, the rest zero), not emptied: \<^verbatim>\<open>buffer.resize(max_size)\<close> has
  run before \<^verbatim>\<open>recv\<close> and nothing shrinks the buffer on these two paths.
\<close>

theorem receive_packet_failure:
  assumes "initialized fc" and "0 \<le> socket_fd fc"
      and "k_recv k (length w) = Recv_error errno"
  shows "receive_packet k buffer max_size (fc, w) =
           (if errno = EAGAIN \<or> errno = EWOULDBLOCK
            then (0, resize max_size buffer, fc, Recv (socket_fd fc) max_size (- 1) # w)
            else (- 1, resize max_size buffer,
                  fc\<lparr>stats := (stats fc)\<lparr>errors := errors (stats fc) + 1\<rparr>\<rparr>,
                  Recv (socket_fd fc) max_size (- 1) # w))"
  using assms by (simp add: receive_packet_def Let_def)

theorem receive_packet_failure_witness:
  "initialized open_endpoint \<and> 0 \<le> socket_fd open_endpoint \<and>
   k_recv (host_example 0 (Recv_error 5)) (length ([] :: world)) = Recv_error 5 \<and>
   receive_packet (host_example 0 (Recv_error 5)) [7] 3 (open_endpoint, []) =
     (- 1, [7, 0, 0],
      open_endpoint\<lparr>stats := PacketStats_init\<lparr>errors := 1\<rparr>\<rparr>, [Recv 3 3 (- 1)])"
  using receive_packet_failure [of open_endpoint "host_example 0 (Recv_error 5)" "[]" 5 "[7]" 3]
  by (simp add: open_endpoint_def host_example_def resize_def EAGAIN_def EWOULDBLOCK_def
        PacketStats_init_def replicate_numeral)

text \<open>
  The claim as stated fails: with \<^verbatim>\<open>max_size = 4\<close> and an empty buffer passed in, a
  would-block \<^verbatim>\<open>recv\<close> gives the return value 0 together with a buffer of four zero
  bytes.
\<close>

theorem receive_packet_would_block_counterexample:
  "receive_packet (host_example 0 (Recv_error EAGAIN)) [] 4 (open_endpoint, []) =
     (0, [0, 0, 0, 0], open_endpoint, [Recv 3 4 (- 1)])"
  by (simp add: receive_packet_def open_endpoint_def host_example_def resize_def Let_def
        replicate_numeral EAGAIN_def)

subsection \<open>Sending\<close>

text \<open>
  C2. On an open endpoint \<^verbatim>\<open>send_packet(data)\<close> returns true if and only if \<^verbatim>\<open>send\<close>
  accepted exactly \<open>|data|\<close> bytes; and, for counts and lengths in the ranges of
  \<^verbatim>\<open>ssize_t\<close> and \<^verbatim>\<open>size_t\<close>, it returns true exactly when \<^verbatim>\<open>packets_sent\<close> has grown
  by 1 and \<^verbatim>\<open>bytes_sent\<close> by \<open>|data|\<close>. Whenever \<^verbatim>\<open>send\<close> returns a non-negative count
  \<open>n\<close>, so in particular when the result is true, the statistics become the old ones
  with \<^verbatim>\<open>packets_sent\<close> plus 1, \<^verbatim>\<open>bytes_sent\<close> plus \<open>n\<close>, and \<^verbatim>\<open>avg_latency_us\<close>
  updated from the measured latency: 0.9 times its old value plus 0.1 times the latency
  when that is positive, unchanged when it is 0 (the double read as a real number). When
  \<^verbatim>\<open>send\<close> returns a negative value only \<^verbatim>\<open>errors\<close> changes.
\<close>

theorem send_packet_open:
  assumes "initialized fc" and "0 \<le> socket_fd fc"
      and "send_packet k dat (fc, w) = (ok, fc1, w1)"
      and "n = k_send k (Suc (length w))"
      and "latency = k_clock k (Suc (Suc (length w))) - k_clock k (length w)"
  shows "(ok \<longleftrightarrow> n = int (length dat)) \<and>
         (0 \<le> n \<longrightarrow>
            stats fc1 = (stats fc)\<lparr>packets_sent := packets_sent (stats fc) + 1,
                                  bytes_sent := bytes_sent (stats fc) + word_of_int n,
                                  avg_latency_us :=
                                    (if 0 < latency
                                     then avg_latency_us (stats fc) * 0.9 + real (unat latency) * 0.1
                                     else avg_latency_us (stats fc))\<rparr>) \<and>
         (n < 0 \<longrightarrow> stats fc1 = (stats fc)\<lparr>errors := errors (stats fc) + 1\<rparr>) \<and>
         (n < 2 ^ 63 \<and> length dat < 2 ^ 64 \<longrightarrow>
            (ok \<longleftrightarrow> packets_sent (stats fc1) = packets_sent (stats fc) + 1 \<and>
                   bytes_sent (stats fc1) = bytes_sent (stats fc) + word_of_nat (length dat)))"
proof (cases "n < 0")
  case True
  then show ?thesis
    using assms send_packet_rejected [of fc k w dat] by auto
next
  case False
  have ok: "ok \<longleftrightarrow> n = int (length dat)"
    using False assms send_packet_accepted [of fc k w dat] by auto
  have st: "stats fc1 = update_stats True (word_of_int n) latency (stats fc)"
    using False assms send_packet_accepted [of fc k w dat] by auto
  have a: "stats fc1 = (stats fc)\<lparr>packets_sent := packets_sent (stats fc) + 1,
                                  bytes_sent := bytes_sent (stats fc) + word_of_int n,
                                  avg_latency_us :=
                                    (if 0 < latency
                                     then avg_latency_us (stats fc) * 0.9 + real (unat latency) * 0.1
                                     else avg_latency_us (stats fc))\<rparr>"
    unfolding st by (simp add: update_stats_def)
  have b: "ok \<longleftrightarrow> packets_sent (stats fc1) = packets_sent (stats fc) + 1 \<and>
                bytes_sent (stats fc1) = bytes_sent (stats fc) + word_of_nat (length dat)"
    if r: "n < 2 ^ 63" "length dat < 2 ^ 64"
  proof
    assume ok
    then show "packets_sent (stats fc1) = packets_sent (stats fc) + 1 \<and>
               bytes_sent (stats fc1) = bytes_sent (stats fc) + word_of_nat (length dat)"
      using ok by (simp add: st update_stats_sent)
  next
    assume "packets_sent (stats fc1) = packets_sent (stats fc) + 1 \<and>
            bytes_sent (stats fc1) = bytes_sent (stats fc) + word_of_nat (length dat)"
    then have "(word_of_int n :: u64) = word_of_nat (length dat)"
      by (simp add: st update_stats_sent)
    then show ok
      using accepted_count_unique [of n dat] r False ok by simp
  qed
  show ?thesis
    using False ok a b by blast
qed

theorem send_packet_open_witness:
  "initialized open_endpoint \<and> 0 \<le> socket_fd open_endpoint \<and>
   send_packet (host_example 4 (Recv_error 11)) [1, 2, 3, 4] (open_endpoint, []) =
     (True,
      open_endpoint\<lparr>stats := PacketStats_init\<lparr>packets_sent := 1, bytes_sent := 4,
                                                  avg_latency_us := 2\<rparr>\<rparr>,
      [Clock 20, Send 3 [1, 2, 3, 4] 4, Clock 0]) \<and>
   (4 :: int) < 2 ^ 63 \<and> length [1, 2, 3, 4 :: u8] < 2 ^ 64 \<and>
   stats (open_endpoint\<lparr>stats := PacketStats_init\<lparr>packets_sent := 1, bytes_sent := 4,
                                                      avg_latency_us := 2\<rparr>\<rparr>) =
     (stats open_endpoint)\<lparr>packets_sent := 1, bytes_sent := 4, avg_latency_us := 2\<rparr>"
proof -
  let ?k = "host_example 4 (Recv_error 11)"
  have h1: "initialized open_endpoint" and h2: "0 \<le> socket_fd open_endpoint"
    by (simp_all add: open_endpoint_def)
  have h3: "send_packet ?k [1, 2, 3, 4] (open_endpoint, []) =
     (True,
      open_endpoint\<lparr>stats := PacketStats_init\<lparr>packets_sent := 1, bytes_sent := 4,
                                                  avg_latency_us := 2\<rparr>\<rparr>,
      [Clock 20, Send 3 [1, 2, 3, 4] 4, Clock 0])"
    by (simp add: send_packet_def get_timestamp_us_def update_stats_def open_endpoint_def
        host_example_def PacketStats_init_def Let_def)
  have n: "k_send ?k (Suc (length ([] :: world))) = 4"
    and l: "k_clock ?k (Suc (Suc (length ([] :: world)))) - k_clock ?k (length ([] :: world)) = 20"
    by (simp_all add: host_example_def)
  have "stats (open_endpoint\<lparr>stats := PacketStats_init\<lparr>packets_sent := 1, bytes_sent := 4,
                                                      avg_latency_us := 2\<rparr>\<rparr>) =
     (stats open_endpoint)\<lparr>packets_sent := packets_sent (stats open_endpoint) + 1,
        bytes_sent := bytes_sent (stats open_endpoint) + word_of_int 4,
        avg_latency_us := (if 0 < (20 :: u64)
           then avg_latency_us (stats open_endpoint) * 0.9 + real (unat (20 :: u64)) * 0.1
           else avg_latency_us (stats open_endpoint))\<rparr>"
    using send_packet_open [OF h1 h2 h3 n [symmetric] l [symmetric]] by simp
  then show ?thesis
    using h1 h2 h3 by (simp add: open_endpoint_def PacketStats_init_def)
qed

text \<open>
  C4 (as amended). On an open endpoint, when \<^verbatim>\<open>send\<close> accepts \<open>n\<close> bytes with
  \<open>0 \<le> n < |data|\<close>, \<^verbatim>\<open>send_packet\<close> returns false and leaves \<^verbatim>\<open>errors\<close>,
  \<^verbatim>\<open>packets_received\<close> and \<^verbatim>\<open>bytes_received\<close> unchanged; but \<^verbatim>\<open>update_stats\<close> has
  already run, so \<^verbatim>\<open>packets_sent\<close> has grown by 1 and \<^verbatim>\<open>bytes_sent\<close> by \<open>n\<close>.
\<close>

theorem send_packet_short_write:
  assumes "initialized fc" and "0 \<le> socket_fd fc"
      and "k_send k (Suc (length w)) = n" and "0 \<le> n" and "n < int (length dat)"
      and "send_packet k dat (fc, w) = (ok, fc1, w1)"
  shows "\<not> ok \<and>
         errors (stats fc1) = errors (stats fc) \<and>
         packets_received (stats fc1) = packets_received (stats fc) \<and>
         bytes_received (stats fc1) = bytes_received (stats fc) \<and>
         packets_sent (stats fc1) = packets_sent (stats fc) + 1 \<and>
         bytes_sent (stats fc1) = bytes_sent (stats fc) + word_of_int n"
  using assms
  by (auto simp: send_packet_def get_timestamp_us_def update_stats_def Let_def)

theorem send_packet_short_write_witness:
  "initialized open_endpoint \<and> 0 \<le> socket_fd open_endpoint \<and>
   k_send (host_example 2 (Recv_error 11)) (Suc (length ([] :: world))) = 2 \<and>
   (0::int) \<le> 2 \<and> (2::int) < int (length [1, 2, 3 :: u8]) \<and>
   \<not> fst (send_packet (host_example 2 (Recv_error 11)) [1, 2, 3] (open_endpoint, [])) \<and>
   packets_sent (stats (fst (snd
     (send_packet (host_example 2 (Recv_error 11)) [1, 2, 3] (open_endpoint, []))))) = 1 \<and>
   bytes_sent (stats (fst (snd
     (send_packet (host_example 2 (Recv_error 11)) [1, 2, 3] (open_endpoint, []))))) = 2"
  using send_packet_short_write [of open_endpoint "host_example 2 (Recv_error 11)" "[]" 2
      "[1, 2, 3]"
      "fst (send_packet (host_example 2 (Recv_error 11)) [1, 2, 3] (open_endpoint, []))"
      "fst (snd (send_packet (host_example 2 (Recv_error 11)) [1, 2, 3] (open_endpoint, [])))"
      "snd (snd (send_packet (host_example 2 (Recv_error 11)) [1, 2, 3] (open_endpoint, [])))"]
  by (simp add: open_endpoint_def host_example_def PacketStats_init_def)

text \<open>
  The claim as stated fails: three bytes are handed over, the host accepts two, and the
  counters \<^verbatim>\<open>packets_sent\<close> and \<^verbatim>\<open>bytes_sent\<close> (and the latency average) have changed.
\<close>

theorem send_packet_short_write_counterexample:
  "send_packet (host_example 2 (Recv_error 11)) [1, 2, 3] (open_endpoint, []) =
     (False,
      open_endpoint\<lparr>stats := PacketStats_init\<lparr>packets_sent := 1, bytes_sent := 2,
                                                  avg_latency_us := 2\<rparr>\<rparr>,
      [Clock 20, Send 3 [1, 2, 3] 2, Clock 0])"
  by (simp add: send_packet_def get_timestamp_us_def update_stats_def open_endpoint_def
        host_example_def PacketStats_init_def Let_def)

subsection \<open>Request and response\<close>

text \<open>
  C5. \<^verbatim>\<open>send_and_receive\<close> reads the clock, then calls \<^verbatim>\<open>send_packet\<close> and, if that
  succeeded, \<^verbatim>\<open>receive_packet\<close> with the default size 4096. Its result is: failure with
  "Failed to send request" when \<^verbatim>\<open>send_packet\<close> returned false; otherwise failure with
  "Failed to receive response" when \<^verbatim>\<open>receive_packet\<close> returned a negative value, failure
  with "Response timeout" when it returned 0, and, when it returned a positive value,
  success with the received bytes (the frame the host delivered, cut to 4096 bytes) and
  with the difference between the clock reading taken after the receive and the one taken
  before the send.
\<close>

theorem send_and_receive_result:
  assumes "send_packet k request (fc, Clock (k_clock k (length w)) # w) = (ok, fc2, w2)"
      and "receive_packet k response 4096 (fc2, w2) = (received, response3, fc3, w3)"
      and "send_and_receive k request response (fc, w) = (result, s)"
  shows "(\<not> ok \<longrightarrow> result = \<lparr>success = False, data = [], latency_us = 0,
                                error_message = ''Failed to send request''\<rparr>) \<and>
         (ok \<and> received < 0 \<longrightarrow>
            result = \<lparr>success = False, data = [], latency_us = 0,
                      error_message = ''Failed to receive response''\<rparr>) \<and>
         (ok \<and> received = 0 \<longrightarrow>
            result = \<lparr>success = False, data = [], latency_us = 0,
                      error_message = ''Response timeout''\<rparr>) \<and>
         (ok \<and> 0 < received \<longrightarrow>
            result = \<lparr>success = True, data = response3,
                      latency_us = k_clock k (length w3) - k_clock k (length w),
                      error_message = []\<rparr> \<and>
            (\<exists>frame. k_recv k (length w2) = Recv_frame frame \<and> response3 = take 4096 frame \<and>
                     received = int (length response3)))"
proof -
  have "result = 
     (if \<not> ok then CommResult_init\<lparr>error_message := ''Failed to send request''\<rparr>
      else if received < 0 then CommResult_init\<lparr>error_message := ''Failed to receive response''\<rparr>
      else if received = 0 then CommResult_init\<lparr>error_message := ''Response timeout''\<rparr>
      else CommResult_init\<lparr>success := True, data := response3,
             latency_us := k_clock k (length w3) - k_clock k (length w)\<rparr>)"
    using assms by (simp add: send_and_receive_def get_timestamp_us_def Let_def split: if_splits)
  then show ?thesis
    using receive_packet_positive [OF assms(2)] by (simp add: CommResult_init_def)
qed

theorem send_and_receive_result_witness:
  "send_packet (host_example 4 (Recv_frame [9, 8])) [1, 2, 3, 4] (open_endpoint, [Clock 0]) =
     (True,
      open_endpoint\<lparr>stats := PacketStats_init\<lparr>packets_sent := 1, bytes_sent := 4,
                                                  avg_latency_us := 2\<rparr>\<rparr>,
      [Clock 30, Send 3 [1, 2, 3, 4] 4, Clock 10, Clock 0]) \<and>
   fst (receive_packet (host_example 4 (Recv_frame [9, 8])) [] 4096
      (open_endpoint\<lparr>stats := PacketStats_init\<lparr>packets_sent := 1, bytes_sent := 4,
                                                  avg_latency_us := 2\<rparr>\<rparr>,
       [Clock 30, Send 3 [1, 2, 3, 4] 4, Clock 10, Clock 0])) = 2 \<and>
   fst (send_and_receive (host_example 4 (Recv_frame [9, 8])) [1, 2, 3, 4] [] (open_endpoint, []))
     = \<lparr>success = True, data = [9, 8], latency_us = 50, error_message = []\<rparr>"
proof -
  let ?k = "host_example 4 (Recv_frame [9, 8])"
  let ?fc2 = "open_endpoint\<lparr>stats := PacketStats_init\<lparr>packets_sent := 1, bytes_sent := 4,
                                                  avg_latency_us := 2\<rparr>\<rparr>"
  let ?w2 = "[Clock 30, Send 3 [1, 2, 3, 4] 4, Clock 10, Clock 0]"
  let ?fc3 = "?fc2\<lparr>stats := update_stats False 2 0 (stats ?fc2)\<rparr>"
  have h1: "send_packet ?k [1, 2, 3, 4] (open_endpoint, Clock (k_clock ?k (length ([] :: world))) # [])
              = (True, ?fc2, ?w2)"
    by (simp add: send_packet_def get_timestamp_us_def update_stats_def open_endpoint_def
        host_example_def PacketStats_init_def Let_def)
  have h2: "receive_packet ?k [] 4096 (?fc2, ?w2) = (2, [9, 8], ?fc3, Recv 3 4096 2 # ?w2)"
    by (subst receive_packet_frame [where frame = "[9, 8]"])
       (simp_all add: open_endpoint_def host_example_def to_int32_small)
  have h3: "send_and_receive ?k [1, 2, 3, 4] [] (open_endpoint, []) =
              (fst (send_and_receive ?k [1, 2, 3, 4] [] (open_endpoint, [])),
               snd (send_and_receive ?k [1, 2, 3, 4] [] (open_endpoint, [])))"
    by simp
  have "fst (send_and_receive ?k [1, 2, 3, 4] [] (open_endpoint, [])) =
          \<lparr>success = True, data = [9, 8],
             latency_us = k_clock ?k (length (Recv 3 4096 2 # ?w2)) - k_clock ?k (length ([] :: world)),
             error_message = []\<rparr>"
    using send_and_receive_result [OF h1 h2 h3] by simp
  moreover have "k_clock ?k (length (Recv 3 4096 2 # ?w2)) - k_clock ?k (length ([] :: world)) = 50"
    by (simp add: host_example_def)
  moreover have "k_clock ?k (length ([] :: world)) = 0"
    by (simp add: host_example_def)
  ultimately show ?thesis
    using h1 h2 by simp
qed

subsection \<open>The receive timeout\<close>

text \<open>
  C10. On a closed endpoint \<^verbatim>\<open>set_timeout(t)\<close> stores \<open>t\<close> and makes no system call;
  an \<^verbatim>\<open>initialize\<close> that then succeeds calls \<^verbatim>\<open>setsockopt(SO_RCVTIMEO)\<close> with the
  seconds and microseconds of \<open>t\<close>, whatever timeout the endpoint was constructed with.
\<close>

theorem set_timeout_closed_then_initialize:
  assumes "\<not> initialized fc"
      and "set_timeout k t (fc, w) = (fc1, w1)"
      and "initialize k (fc1, w1) = (True, fc2, w2)"
  shows "fc1 = fc\<lparr>timeout_ms := t\<rparr> \<and> w1 = w \<and> timeout_ms fc2 = t \<and> initialized fc2 \<and>
         hd w2 = Setsockopt_rcvtimeo (socket_fd fc2) (t div 1000) ((t mod 1000) * 1000)
                   (k_setsockopt k (length w + 3))"
  using assms
  by (auto simp: set_timeout_def initialize_def create_raw_socket_def bind_to_interface_def
        Let_def numeral_3_eq_3 split: if_splits prod.splits)

theorem set_timeout_closed_then_initialize_witness:
  "\<not> initialized (FastComms_new ''eth0'' 1000) \<and>
   set_timeout (host_example 0 (Recv_error 11)) 50 (FastComms_new ''eth0'' 1000, [])
     = ((FastComms_new ''eth0'' 1000)\<lparr>timeout_ms := 50\<rparr>, []) \<and>
   hd (snd (snd (initialize (host_example 0 (Recv_error 11))
        ((FastComms_new ''eth0'' 1000)\<lparr>timeout_ms := 50\<rparr>, []))))
     = Setsockopt_rcvtimeo 3 0 50000 0"
  using set_timeout_closed_then_initialize
    [of "FastComms_new ''eth0'' 1000" "host_example 0 (Recv_error 11)" 50 "[]"
        "(FastComms_new ''eth0'' 1000)\<lparr>timeout_ms := 50\<rparr>" "[]"
        "fst (snd (initialize (host_example 0 (Recv_error 11))
           ((FastComms_new ''eth0'' 1000)\<lparr>timeout_ms := 50\<rparr>, [])))"
        "snd (snd (initialize (host_example 0 (Recv_error 11))
           ((FastComms_new ''eth0'' 1000)\<lparr>timeout_ms := 50\<rparr>, [])))"]
  by (simp add: set_timeout_def initialize_def create_raw_socket_def bind_to_interface_def
        Let_def FastComms_new_def host_example_def IFNAMSIZ_def)

subsection \<open>Operations built from clock readings, sends and receives\<close>

lemma step_relation_refl: "step_relation R \<Longrightarrow> R s s"
  unfolding step_relation_def by blast

lemma step_relation_trans: "step_relation R \<Longrightarrow> R a b \<Longrightarrow> R b c \<Longrightarrow> R a c"
  unfolding step_relation_def by blast

lemma step_relation_clock: "step_relation R \<Longrightarrow> R (fc, w) (fc, Clock c # w)"
  unfolding step_relation_def by blast

lemma step_relation_send:
  "step_relation R \<Longrightarrow> send_packet k dat (fc, w) = (ok, fc1, w1) \<Longrightarrow> R (fc, w) (fc1, w1)"
  unfolding step_relation_def by (metis snd_conv)

lemma step_relation_receive:
  "step_relation R \<Longrightarrow> receive_packet k buffer max_size (fc, w) = (n, buffer1, fc1, w1) \<Longrightarrow>
   R (fc, w) (fc1, w1)"
  unfolding step_relation_def by (metis snd_conv)

lemma send_and_receive_rel:
  assumes R: "step_relation R"
      and "send_and_receive k request response (fc, w) = (result, response1, fc1, w1)"
  shows "R (fc, w) (fc1, w1)"
proof -
  let ?w0 = "Clock (k_clock k (length w)) # w"
  obtain ok fc2 w2 where sp: "send_packet k request (fc, ?w0) = (ok, fc2, w2)"
    by (metis prod_cases3)
  obtain n b fc3 w3 where rp: "receive_packet k response 4096 (fc2, w2) = (n, b, fc3, w3)"
    by (metis prod_cases4)
  have a: "R (fc, w) (fc2, w2)"
    using step_relation_trans [OF R step_relation_clock [OF R] step_relation_send [OF R sp]] .
  have b: "R (fc, w) (fc3, w3)"
    using step_relation_trans [OF R a step_relation_receive [OF R rp]] .
  have c: "R (fc, w) (fc3, Clock (k_clock k (length w3)) # w3)"
    using step_relation_trans [OF R b step_relation_clock [OF R]] .
  have "(fc1, w1) = (fc2, w2) \<or> (fc1, w1) = (fc3, w3) \<or>
        (fc1, w1) = (fc3, Clock (k_clock k (length w3)) # w3)"
    using assms(2) sp rp
    by (auto simp: send_and_receive_def get_timestamp_us_def Let_def split: if_splits)
  then show ?thesis
    using a b c by auto
qed

lemma burst_loop_rel:
  assumes R: "step_relation R"
  shows "burst_loop k packets c (fc, w) = (n, fc1, w1) \<Longrightarrow> R (fc, w) (fc1, w1)"
proof (induction packets arbitrary: c fc w)
  case Nil
  then show ?case by (simp add: step_relation_refl [OF R])
next
  case (Cons packet packets)
  obtain ok fc2 w2 where sp: "send_packet k packet (fc, w) = (ok, fc2, w2)"
    by (metis prod_cases3)
  then have "burst_loop k packets (if ok then c + 1 else c) (fc2, w2) = (n, fc1, w1)"
    using Cons.prems by simp
  from step_relation_trans [OF R step_relation_send [OF R sp] Cons.IH [OF this]]
  show ?case .
qed

lemma stress_loop_rel:
  assumes R: "step_relation R"
      and ret: "stress_loop k end_time test_packet packet_size s = Some r"
  shows "R (snd s) (snd r)"
proof (rule stress_loop.raw_induct
    [where P = "\<lambda>k end_time test_packet packet_size s r. R (snd s) (snd r)", OF _ ret])
  fix loop k end_time test_packet packet_size s r
  assume IH: "\<And>k end_time test_packet packet_size s r.
                 loop k end_time test_packet packet_size s = Some r \<Longrightarrow> R (snd s) (snd r)"
    and body: "(case s of
                 (test_stats, fc, w) \<Rightarrow>
                   let (now, w1) = get_timestamp_us k w
                   in if now < end_time
                      then let (ok, fc2, w2) = send_packet k test_packet (fc, w1)
                           in loop k end_time test_packet packet_size
                                (if ok
                                 then test_stats\<lparr>packets_sent := packets_sent test_stats + 1,
                                        bytes_sent := bytes_sent test_stats + word_of_nat packet_size\<rparr>
                                 else test_stats\<lparr>errors := errors test_stats + 1\<rparr>,
                                 fc2, w2)
                      else Some (test_stats, fc, w1)) = Some r"
  obtain ts fc w where s: "s = (ts, fc, w)" by (metis prod_cases3)
  let ?w0 = "Clock (k_clock k (length w)) # w"
  obtain ok fc2 w2 where sp: "send_packet k test_packet (fc, ?w0) = (ok, fc2, w2)"
    by (metis prod_cases3)
  have a: "R (fc, w) (fc2, w2)"
    using step_relation_trans [OF R step_relation_clock [OF R] step_relation_send [OF R sp]] .
  show "R (snd s) (snd r)"
  proof (cases "k_clock k (length w) < end_time")
    case True
    then obtain ts2 where "loop k end_time test_packet packet_size (ts2, fc2, w2) = Some r"
      using body s sp by (simp add: get_timestamp_us_def)
    from IH [OF this] have "R (fc2, w2) (snd r)" by simp
    from step_relation_trans [OF R a this] show ?thesis by (simp add: s)
  next
    case False
    then have "snd r = (fc, ?w0)"
      using body s by (auto simp: get_timestamp_us_def)
    then show ?thesis
      using step_relation_clock [OF R, of fc w] by (simp add: s)
  qed
qed

lemma stress_test_rel:
  assumes R: "step_relation R"
      and ret: "stress_test k duration_ms packet_size (fc, w) = Some (ts, fc1, w1)"
  shows "R (fc, w) (fc1, w1)"
proof -
  let ?w0 = "Clock (k_clock k (length w)) # w"
  obtain ts2 fc2 w2 where
    loop: "stress_loop k (k_clock k (length w) + ucast (duration_ms * 1000))
             (replicate packet_size 0xAA) packet_size (PacketStats_init, fc, ?w0)
           = Some (ts2, fc2, w2)"
    and fin: "fc1 = fc2" "w1 = Clock (k_clock k (length w2)) # w2"
    using ret
    by (auto simp: stress_test_def get_timestamp_us_def Let_def split: option.splits)
  have "R (fc, ?w0) (fc2, w2)"
    using stress_loop_rel [OF R loop] by simp
  from step_relation_trans [OF R step_relation_clock [OF R] this]
  have "R (fc, w) (fc2, w2)" .
  from step_relation_trans [OF R this step_relation_clock [OF R]]
  show ?thesis by (simp add: fin)
qed

lemma exec_data_plane_rel:
  assumes R: "step_relation R" and "data_plane op" and "exec k op (fc, w) = Some (fc1, w1)"
  shows "R (fc, w) (fc1, w1)"
proof (cases op)
  case (Op_send_packet dat)
  then show ?thesis
    using assms(3) step_relation_send [OF R, of k dat fc w]
    by (cases "send_packet k dat (fc, w)") auto
next
  case (Op_receive_packet buffer max_size)
  then show ?thesis
    using assms(3) step_relation_receive [OF R, of k buffer max_size fc w]
    by (cases "receive_packet k buffer max_size (fc, w)") auto
next
  case (Op_send_and_receive request response)
  then show ?thesis
    using assms(3) send_and_receive_rel [OF R, of k request response fc w]
    by (cases "send_and_receive k request response (fc, w)") auto
next
  case (Op_burst_send packets)
  then show ?thesis
    using assms(3) burst_loop_rel [OF R, of k packets 0 fc w]
    by (cases "burst_loop k packets 0 (fc, w)") (auto simp: burst_send_def)
next
  case (Op_measure_latency payload)
  then show ?thesis
    using assms(3) send_and_receive_rel [OF R, of k payload "[]" fc w]
    by (cases "send_and_receive k payload [] (fc, w)")
       (auto simp: measure_latency_def split: if_splits)
next
  case (Op_stress_test duration_ms packet_size)
  then show ?thesis
    using assms(3) stress_test_rel [OF R, of k duration_ms packet_size fc w] by auto
next
  case Op_get_statistics
  then show ?thesis using assms(3) step_relation_refl [OF R] by simp
next
  case Op_is_ready
  then show ?thesis using assms(3) step_relation_refl [OF R] by simp
qed (use assms(2) in simp_all)


subsection \<open>The flag and the descriptor\<close>

lemma send_packet_same_handle:
  "send_packet k dat (fc, w) = (ok, fc1, w1) \<Longrightarrow> same_handle fc fc1"
  by (auto simp: send_packet_def get_timestamp_us_def same_handle_def Let_def split: if_splits)

lemma receive_packet_same_handle:
  "receive_packet k buffer max_size (fc, w) = (n, buffer1, fc1, w1) \<Longrightarrow> same_handle fc fc1"
  by (auto simp: receive_packet_def same_handle_def Let_def split: if_splits recv_result.splits)

lemma step_relation_same_handle: "step_relation (\<lambda>s s1. same_handle (fst s) (fst s1))"
proof -
  have "same_handle fc (fst (snd (send_packet k dat (fc, w))))" for k dat fc w
    using send_packet_same_handle [of k dat fc w]
    by (cases "send_packet k dat (fc, w)") simp
  moreover have "same_handle fc (fst (snd (snd (receive_packet k b m (fc, w)))))" for k b m fc w
    using receive_packet_same_handle [of k b m fc w]
    by (cases "receive_packet k b m (fc, w)") simp
  ultimately show ?thesis
    by (simp add: step_relation_def) (simp add: same_handle_def)
qed

lemma same_handle_agrees: "same_handle fc fc1 \<Longrightarrow> handle_agrees fc \<Longrightarrow> handle_agrees fc1"
  by (simp add: same_handle_def handle_agrees_def)

lemma initialize_handle_agrees:
  "handle_agrees fc \<Longrightarrow> initialize k (fc, w) = (ok, fc1, w1) \<Longrightarrow> handle_agrees fc1"
  by (auto simp: initialize_def create_raw_socket_def bind_to_interface_def handle_agrees_def
        Let_def split: if_splits)

lemma close_handle_agrees: "close (fc, w) = (fc1, w1) \<Longrightarrow> handle_agrees fc1"
  by (auto simp: close_def handle_agrees_def split: if_splits)

lemma set_timeout_same_handle: "set_timeout k t (fc, w) = (fc1, w1) \<Longrightarrow> same_handle fc fc1"
  by (auto simp: set_timeout_def same_handle_def Let_def split: if_splits)

lemma exec_handle_agrees:
  assumes "handle_agrees fc" and "exec k op (fc, w) = Some (fc1, w1)"
  shows "handle_agrees fc1"
proof (cases "data_plane op")
  case True
  from exec_data_plane_rel [OF step_relation_same_handle True assms(2)]
  show ?thesis using assms(1) by (simp add: same_handle_agrees)
next
  case False
  then consider "op = Op_initialize" | "op = Op_close" | "op = Op_reset_statistics"
    | t where "op = Op_set_timeout t" | "op = Op_destroy"
    by (cases op) simp_all
  then show ?thesis
  proof cases
    case 1
    then show ?thesis
      using assms initialize_handle_agrees [of fc k w] by (cases "initialize k (fc, w)") auto
  next
    case 2
    then show ?thesis using assms close_handle_agrees [of fc w] by auto
  next
    case 3
    then show ?thesis using assms by (auto simp: reset_statistics_def handle_agrees_def)
  next
    case 4
    then show ?thesis
      using assms set_timeout_same_handle [of k t fc w] by (auto intro: same_handle_agrees)
  next
    case 5
    then show ?thesis using assms close_handle_agrees [of fc w] by (auto simp: destroy_def)
  qed
qed

lemma run_handle_agrees:
  "handle_agrees (fst s) \<Longrightarrow> run k ops s = Some s1 \<Longrightarrow> handle_agrees (fst s1)"
proof (induction ops arbitrary: s)
  case Nil
  then show ?case by simp
next
  case (Cons op ops)
  then obtain s2 where e: "exec k op s = Some s2" and r: "run k ops s2 = Some s1"
    by (auto split: option.splits)
  have "handle_agrees (fst s2)"
    using exec_handle_agrees [of "fst s" k op "snd s" "fst s2" "snd s2"] e Cons.prems(1) by simp
  from Cons.IH [OF this r] show ?case .
qed

text \<open>
  C1. After any sequence of operations on a freshly constructed endpoint
  \<^verbatim>\<open>initialized_\<close> is true exactly when \<^verbatim>\<open>socket_fd_ >= 0\<close>, and \<^verbatim>\<open>is_ready()\<close>
  returns exactly that. The sequence is arbitrary, so this holds at every point between
  two operations of a longer one.
\<close>

theorem initialized_iff_socket_valid:
  assumes "run k ops (FastComms_new name timeout, w) = Some (fc, w1)"
  shows "(initialized fc \<longleftrightarrow> 0 \<le> socket_fd fc) \<and>
         (is_ready fc \<longleftrightarrow> initialized fc) \<and> (is_ready fc \<longleftrightarrow> 0 \<le> socket_fd fc)"
proof -
  have "handle_agrees (fst (FastComms_new name timeout, w))"
    by (simp add: handle_agrees_def FastComms_new_def)
  from run_handle_agrees [OF this assms] show ?thesis
    by (auto simp: handle_agrees_def is_ready_def)
qed


lemmas endpoint_defs =
  initialize_def create_raw_socket_def bind_to_interface_def close_def destroy_def
  send_packet_def receive_packet_def get_timestamp_us_def update_stats_def resize_def
  set_timeout_def reset_statistics_def to_int32_def IFNAMSIZ_def EAGAIN_def EWOULDBLOCK_def
  FastComms_new_def PacketStats_init_def open_endpoint_def host_example_def Let_def

theorem initialized_iff_socket_valid_witness:
  "run (host_example 2 (Recv_error 11)) [Op_initialize, Op_send_packet [1, 2], Op_close, Op_initialize]
     (FastComms_new ''eth0'' 1000, []) =
   Some (\<lparr>interface_name = ''eth0'', timeout_ms = 1000, socket_fd = 3, initialized = True,
           stats = PacketStats_init\<lparr>packets_sent := 1, bytes_sent := 2, avg_latency_us := 2\<rparr>\<rparr>,
         [Setsockopt_rcvtimeo 3 1 0 0, Bind 3 0, Ioctl_ifindex 3 ''eth0'' 0, Socket 3, Close 3,
          Clock 60, Send 3 [1, 2] 2, Clock 40,
          Setsockopt_rcvtimeo 3 1 0 0, Bind 3 0, Ioctl_ifindex 3 ''eth0'' 0, Socket 3]) \<and>
   is_ready \<lparr>interface_name = ''eth0'', timeout_ms = 1000, socket_fd = 3, initialized = True,
           stats = PacketStats_init\<lparr>packets_sent := 1, bytes_sent := 2, avg_latency_us := 2\<rparr>\<rparr>"
proof -
  have r: "run (host_example 2 (Recv_error 11))
             [Op_initialize, Op_send_packet [1, 2], Op_close, Op_initialize]
             (FastComms_new ''eth0'' 1000, []) =
   Some (\<lparr>interface_name = ''eth0'', timeout_ms = 1000, socket_fd = 3, initialized = True,
           stats = PacketStats_init\<lparr>packets_sent := 1, bytes_sent := 2, avg_latency_us := 2\<rparr>\<rparr>,
         [Setsockopt_rcvtimeo 3 1 0 0, Bind 3 0, Ioctl_ifindex 3 ''eth0'' 0, Socket 3, Close 3,
          Clock 60, Send 3 [1, 2] 2, Clock 40,
          Setsockopt_rcvtimeo 3 1 0 0, Bind 3 0, Ioctl_ifindex 3 ''eth0'' 0, Socket 3])"
    by (simp add: endpoint_defs)
  from initialized_iff_socket_valid [OF r] show ?thesis
    using r by simp
qed


subsection \<open>The counters and the record\<close>

lemma accounted_refl: "accounted s s"
  by (simp add: accounted_def)

lemma accounted_trans: "accounted a b \<Longrightarrow> accounted b c \<Longrightarrow> accounted a c"
  by (auto simp: accounted_def intro: suffix_order.trans)

lemma accounted_quiet:
  assumes "stats fc1 = stats fc"
      and "packets_of_send e = 0" and "bytes_of_send e = 0"
      and "packets_of_recv e = 0" and "bytes_of_recv e = 0"
  shows "accounted (fc, w) (fc1, e # w)"
  using assms by (simp add: accounted_def balance_def total_def suffix_ConsI)

lemma send_packet_accounted:
  assumes "send_packet k dat (fc, w) = (ok, fc1, w1)"
  shows "accounted (fc, w) (fc1, w1)"
proof (cases "initialized fc \<and> 0 \<le> socket_fd fc")
  case False
  then show ?thesis
    using assms send_packet_closed [of fc k dat w] by (auto simp: accounted_refl)
next
  case True
  show ?thesis
  proof (cases "k_send k (Suc (length w)) < 0")
    case True
    then show ?thesis
      using assms \<open>initialized fc \<and> 0 \<le> socket_fd fc\<close> send_packet_rejected [of fc k w dat]
      by (auto simp: accounted_def balance_def total_def suffix_ConsI)
  next
    case False
    then show ?thesis
      using assms \<open>initialized fc \<and> 0 \<le> socket_fd fc\<close> send_packet_accepted [of fc k w dat]
      by (auto simp: accounted_def balance_def total_def suffix_ConsI update_stats_sent)
  qed
qed

lemma receive_packet_accounted:
  assumes "receive_packet k buffer max_size (fc, w) = (n, buffer1, fc1, w1)"
  shows "accounted (fc, w) (fc1, w1)"
  using assms
  by (auto simp: receive_packet_def accounted_def balance_def total_def suffix_ConsI
        update_stats_received Let_def split: if_splits recv_result.splits)

lemma step_relation_accounted: "step_relation accounted"
proof -
  have "accounted (fc, w) (snd (send_packet k dat (fc, w)))" for k dat fc w
    using send_packet_accounted [of k dat fc w]
    by (cases "send_packet k dat (fc, w)") simp
  moreover have "accounted (fc, w) (snd (snd (receive_packet k b m (fc, w))))" for k b m fc w
    using receive_packet_accounted [of k b m fc w]
    by (cases "receive_packet k b m (fc, w)") simp
  moreover have "accounted (fc, w) (fc, Clock c # w)" for fc w c
    by (simp add: accounted_quiet)
  ultimately show ?thesis
    unfolding step_relation_def using accounted_refl accounted_trans by blast
qed

lemma initialize_accounted:
  "initialize k (fc, w) = (ok, fc1, w1) \<Longrightarrow> accounted (fc, w) (fc1, w1)"
  by (auto simp: initialize_def create_raw_socket_def bind_to_interface_def Let_def
        accounted_def balance_def total_def suffix_ConsI split: if_splits)

lemma close_accounted: "close (fc, w) = (fc1, w1) \<Longrightarrow> accounted (fc, w) (fc1, w1)"
  by (auto simp: close_def accounted_def balance_def total_def suffix_ConsI split: if_splits)

lemma set_timeout_accounted:
  "set_timeout k t (fc, w) = (fc1, w1) \<Longrightarrow> accounted (fc, w) (fc1, w1)"
  by (auto simp: set_timeout_def Let_def accounted_def balance_def total_def suffix_ConsI
        split: if_splits)

lemma exec_accounted:
  assumes "op \<noteq> Op_reset_statistics" and "exec k op (fc, w) = Some (fc1, w1)"
  shows "accounted (fc, w) (fc1, w1)"
proof (cases "data_plane op")
  case True
  from exec_data_plane_rel [OF step_relation_accounted True assms(2)] show ?thesis .
next
  case False
  then consider "op = Op_initialize" | "op = Op_close"
    | t where "op = Op_set_timeout t" | "op = Op_destroy"
    using assms(1) by (cases op) simp_all
  then show ?thesis
  proof cases
    case 1
    then show ?thesis
      using assms initialize_accounted [of k fc w] by (cases "initialize k (fc, w)") auto
  next
    case 2
    then show ?thesis using assms close_accounted [of fc w] by auto
  next
    case 3
    then show ?thesis using assms set_timeout_accounted [of k t fc w] by auto
  next
    case 4
    then show ?thesis using assms close_accounted [of fc w] by (auto simp: destroy_def)
  qed
qed

lemma run_accounted:
  "Op_reset_statistics \<notin> set ops \<Longrightarrow> run k ops s = Some s1 \<Longrightarrow> accounted s s1"
proof (induction ops arbitrary: s)
  case Nil
  then show ?case by (simp add: accounted_refl)
next
  case (Cons op ops)
  then obtain s2 where e: "exec k op s = Some s2" and r: "run k ops s2 = Some s1"
    by (auto split: option.splits)
  have "op \<noteq> Op_reset_statistics"
    using Cons.prems(1) by auto
  then have "accounted s s2"
    using exec_accounted [of op k "fst s" "snd s" "fst s2" "snd s2"] e by simp
  moreover have "accounted s2 s1"
    using Cons.IH [OF _ r] Cons.prems(1) by simp
  ultimately show ?case by (rule accounted_trans)
qed

lemma run_accounted_since_reset:
  assumes "run k ops s = Some s1"
      and "\<exists>fc0 w0. stats fc0 = PacketStats_init \<and> accounted (fc0, w0) s"
  shows "\<exists>fc0 w0. stats fc0 = PacketStats_init \<and> accounted (fc0, w0) s1"
  using assms
proof (induction ops arbitrary: s)
  case Nil
  then show ?case by simp
next
  case (Cons op ops)
  then obtain s2 where e: "exec k op s = Some s2" and r: "run k ops s2 = Some s1"
    by (auto split: option.splits)
  have "\<exists>fc0 w0. stats fc0 = PacketStats_init \<and> accounted (fc0, w0) s2"
  proof (cases "op = Op_reset_statistics")
    case True
    then have "s2 = (reset_statistics (fst s), snd s)"
      using e by simp
    then have "stats (fst s2) = PacketStats_init \<and> accounted (fst s2, snd s2) s2"
      by (simp add: reset_statistics_def accounted_refl)
    then show ?thesis by blast
  next
    case False
    have "accounted s s2"
      using exec_accounted [OF False, of k "fst s" "snd s" "fst s2" "snd s2"] e by simp
    then show ?thesis
      using Cons.prems(2) accounted_trans by blast
  qed
  from Cons.IH [OF r this] show ?case .
qed


lemma total_append: "total f (l @ w) = total f l + total f w"
  by (simp add: total_def)

lemma accounted_from_zero:
  assumes "stats fc0 = PacketStats_init" and "accounted (fc0, w0) (fc, w)"
  shows "\<exists>l. w = l @ w0 \<and>
             packets_sent (stats fc) = word_of_nat (total packets_of_send l) \<and>
             bytes_sent (stats fc) = word_of_nat (total bytes_of_send l) \<and>
             packets_received (stats fc) = word_of_nat (total packets_of_recv l) \<and>
             bytes_received (stats fc) = word_of_nat (total bytes_of_recv l)"
proof -
  obtain l where l: "w = l @ w0"
    using assms(2) by (auto simp: accounted_def suffix_def)
  have "balance (fc, w) = balance (fc0, w0)"
    using assms(2) by (simp add: accounted_def)
  then have "packets_sent (stats fc) = word_of_nat (total packets_of_send l)"
            "bytes_sent (stats fc) = word_of_nat (total bytes_of_send l)"
            "packets_received (stats fc) = word_of_nat (total packets_of_recv l)"
            "bytes_received (stats fc) = word_of_nat (total bytes_of_recv l)"
    using assms(1) by (simp_all add: balance_def l total_append PacketStats_init_def)
  then show ?thesis using l by blast
qed

lemma total_mono: "\<forall>e\<in>set l. f e \<le> g e \<Longrightarrow> total f l \<le> total g l"
  by (simp add: total_def sum_list_mono)

lemma total_strict:
  "\<forall>e\<in>set l. f e \<le> g e \<Longrightarrow> \<exists>e\<in>set l. f e < g e \<Longrightarrow> total f l < total g l"
proof (induction l)
  case Nil
  then show ?case by simp
next
  case (Cons a l)
  have le: "total f l \<le> total g l"
    using Cons.prems(1) by (simp add: total_mono)
  show ?case
  proof (cases "f a < g a")
    case True
    then show ?thesis using le by (simp add: total_def)
  next
    case False
    then have "\<exists>e\<in>set l. f e < g e" using Cons.prems(2) by auto
    then have "total f l < total g l" using Cons.IH Cons.prems(1) by simp
    then show ?thesis using Cons.prems(1) by (simp add: total_def add_le_less_mono)
  qed
qed

lemma no_zero_send: "no_zero_io e \<Longrightarrow> packets_of_send e \<le> bytes_of_send e"
  by (cases e) auto

lemma no_zero_recv: "no_zero_io e \<Longrightarrow> packets_of_recv e \<le> bytes_of_recv e"
  by (cases e) auto

lemma big_send: "no_zero_io e \<Longrightarrow> 1 < bytes_of_send e \<Longrightarrow> packets_of_send e < bytes_of_send e"
  by (cases e) auto

lemma word_of_nat_le_u64:
  "a \<le> b \<Longrightarrow> b < 2 ^ 64 \<Longrightarrow> (word_of_nat a :: u64) \<le> word_of_nat b"
  by (simp add: word_le_nat_alt unat_of_nat)

lemma word_of_nat_less_u64:
  "a < b \<Longrightarrow> b < 2 ^ 64 \<Longrightarrow> (word_of_nat a :: u64) < word_of_nat b"
  by (simp add: word_less_nat_alt unat_of_nat)

lemma run_append:
  "run k (ops1 @ ops2) s = (case run k ops1 s of None \<Rightarrow> None | Some s1 \<Rightarrow> run k ops2 s1)"
  by (induction ops1 arbitrary: s) (auto split: option.splits)

lemma run_ends_with_reset:
  assumes "run k ops1 s = Some (fc0, w0)" and "ops1 \<noteq> []"
      and "last ops1 = Op_reset_statistics"
  shows "stats fc0 = PacketStats_init"
proof -
  have "ops1 = butlast ops1 @ [Op_reset_statistics]"
    using assms(2,3) by (metis append_butlast_last_id)
  then have "run k (butlast ops1 @ [Op_reset_statistics]) s = Some (fc0, w0)"
    using assms(1) by simp
  then show ?thesis
    by (auto simp: run_append reset_statistics_def split: option.splits)
qed

text \<open>
  C6 (as amended). Take any sequence of operations on a freshly constructed endpoint,
  the record of system calls starting empty. If no \<^verbatim>\<open>send\<close> and no \<^verbatim>\<open>recv\<close> in it
  returned 0, and fewer than \<open>2\<^sup>6\<^sup>4\<close> bytes were accepted and fewer than \<open>2\<^sup>6\<^sup>4\<close>
  received in total, then \<^verbatim>\<open>bytes_sent >= packets_sent\<close> and
  \<^verbatim>\<open>bytes_received >= packets_received\<close>; and \<^verbatim>\<open>bytes_sent > packets_sent\<close> whenever
  some \<^verbatim>\<open>send\<close> has accepted more than one byte since the last \<^verbatim>\<open>reset_statistics\<close>, or
  since the construction if there was none. In the statement the sequence is split into
  a part that is empty or ends with \<^verbatim>\<open>reset_statistics\<close> and a part without one; the
  entries of the record made since are the first \<open>length w - length w0\<close> ones, the
  record being kept newest first.
\<close>

theorem bytes_at_least_packets:
  assumes run: "run k ops (FastComms_new name timeout, []) = Some (fc, w)"
      and nz: "\<forall>e\<in>set w. no_zero_io e"
      and bs: "total bytes_of_send w < 2 ^ 64"
      and br: "total bytes_of_recv w < 2 ^ 64"
  shows "packets_sent (stats fc) \<le> bytes_sent (stats fc) \<and>
         packets_received (stats fc) \<le> bytes_received (stats fc) \<and>
         (ops = ops1 @ ops2 \<and> (ops1 = [] \<or> last ops1 = Op_reset_statistics) \<and>
          Op_reset_statistics \<notin> set ops2 \<and>
          run k ops1 (FastComms_new name timeout, []) = Some (fc0, w0) \<and>
          (\<exists>e\<in>set (take (length w - length w0) w). 1 < bytes_of_send e) \<longrightarrow>
            packets_sent (stats fc) < bytes_sent (stats fc))"
proof (intro conjI impI)
  have "\<exists>fc0 w0. stats fc0 = PacketStats_init \<and>
                  accounted (fc0, w0) (FastComms_new name timeout, [])"
    using accounted_refl [of "(FastComms_new name timeout, [])"]
    by (intro exI [of _ "FastComms_new name timeout"] exI [of _ "[]"])
       (simp add: FastComms_new_def)
  from run_accounted_since_reset [OF run this] obtain fc0 w0 where
    "stats fc0 = PacketStats_init" and "accounted (fc0, w0) (fc, w)"
    by blast
  from accounted_from_zero [OF this] obtain l where
    l: "w = l @ w0"
    and ps: "packets_sent (stats fc) = word_of_nat (total packets_of_send l)"
    and bsl: "bytes_sent (stats fc) = word_of_nat (total bytes_of_send l)"
    and pr: "packets_received (stats fc) = word_of_nat (total packets_of_recv l)"
    and brl: "bytes_received (stats fc) = word_of_nat (total bytes_of_recv l)"
    by blast
  have nzl: "\<forall>e\<in>set l. no_zero_io e"
    using nz l by simp
  have "total packets_of_send l \<le> total bytes_of_send l"
    using nzl by (intro total_mono) (simp add: no_zero_send)
  moreover have "total bytes_of_send l < 2 ^ 64"
    using bs l by (simp add: total_append)
  ultimately show "packets_sent (stats fc) \<le> bytes_sent (stats fc)"
    unfolding ps bsl by (rule word_of_nat_le_u64)
  have "total packets_of_recv l \<le> total bytes_of_recv l"
    using nzl by (intro total_mono) (simp add: no_zero_recv)
  moreover have "total bytes_of_recv l < 2 ^ 64"
    using br l by (simp add: total_append)
  ultimately show "packets_received (stats fc) \<le> bytes_received (stats fc)"
    unfolding pr brl by (rule word_of_nat_le_u64)
next
  assume a: "ops = ops1 @ ops2 \<and> (ops1 = [] \<or> last ops1 = Op_reset_statistics) \<and>
          Op_reset_statistics \<notin> set ops2 \<and>
          run k ops1 (FastComms_new name timeout, []) = Some (fc0, w0) \<and>
          (\<exists>e\<in>set (take (length w - length w0) w). 1 < bytes_of_send e)"
  then have mid: "run k ops1 (FastComms_new name timeout, []) = Some (fc0, w0)"
    by blast
  have zero: "stats fc0 = PacketStats_init"
  proof (cases "ops1 = []")
    case True
    then show ?thesis using mid by (auto simp: FastComms_new_def)
  next
    case False
    then show ?thesis using a run_ends_with_reset [OF mid] by blast
  qed
  have "run k ops2 (fc0, w0) = Some (fc, w)"
    using run a mid by (simp add: run_append)
  then have "accounted (fc0, w0) (fc, w)"
    using run_accounted a by blast
  from accounted_from_zero [OF zero this] obtain l where
    l: "w = l @ w0"
    and ps: "packets_sent (stats fc) = word_of_nat (total packets_of_send l)"
    and bsl: "bytes_sent (stats fc) = word_of_nat (total bytes_of_send l)"
    by blast
  have tk: "take (length w - length w0) w = l"
    using l by simp
  have nzl: "\<forall>e\<in>set l. no_zero_io e"
    using nz l by simp
  then have "\<forall>e\<in>set l. packets_of_send e \<le> bytes_of_send e"
    by (simp add: no_zero_send)
  moreover have "\<exists>e\<in>set l. packets_of_send e < bytes_of_send e"
    using a nzl big_send unfolding tk by blast
  ultimately have "total packets_of_send l < total bytes_of_send l"
    by (rule total_strict)
  moreover have "total bytes_of_send l < 2 ^ 64"
    using bs l by (simp add: total_append)
  ultimately show "packets_sent (stats fc) < bytes_sent (stats fc)"
    unfolding ps bsl by (rule word_of_nat_less_u64)
qed

theorem bytes_at_least_packets_witness:
  "run (host_example 2 (Recv_frame [9]))
     ([Op_initialize, Op_send_packet [1, 2], Op_reset_statistics]
        @ [Op_send_packet [1, 2], Op_receive_packet [] 16])
     (FastComms_new ''eth0'' 1000, []) =
   Some (\<lparr>interface_name = ''eth0'', timeout_ms = 1000, socket_fd = 3, initialized = True,
           stats = \<lparr>packets_sent = 1, packets_received = 1, bytes_sent = 2, bytes_received = 1,
                     errors = 0, avg_latency_us = 2\<rparr>\<rparr>,
         [Recv 3 16 1, Clock 90, Send 3 [1, 2] 2, Clock 70, Clock 60, Send 3 [1, 2] 2, Clock 40,
          Setsockopt_rcvtimeo 3 1 0 0, Bind 3 0, Ioctl_ifindex 3 ''eth0'' 0, Socket 3]) \<and>
   run (host_example 2 (Recv_frame [9])) [Op_initialize, Op_send_packet [1, 2], Op_reset_statistics]
     (FastComms_new ''eth0'' 1000, []) =
   Some (\<lparr>interface_name = ''eth0'', timeout_ms = 1000, socket_fd = 3, initialized = True,
           stats = PacketStats_init\<rparr>,
         [Clock 60, Send 3 [1, 2] 2, Clock 40,
          Setsockopt_rcvtimeo 3 1 0 0, Bind 3 0, Ioctl_ifindex 3 ''eth0'' 0, Socket 3]) \<and>
   (1 :: u64) \<le> 2 \<and> (1 :: u64) \<le> 1 \<and> (1 :: u64) < 2"
proof -
  let ?k = "host_example 2 (Recv_frame [9])"
  let ?ops1 = "[Op_initialize, Op_send_packet [1, 2], Op_reset_statistics]"
  let ?ops2 = "[Op_send_packet [1, 2], Op_receive_packet [] 16]"
  let ?wa = "[Clock 60, Send 3 [1, 2] 2, Clock 40,
          Setsockopt_rcvtimeo 3 1 0 0, Bind 3 0, Ioctl_ifindex 3 ''eth0'' 0, Socket 3]"
  let ?w = "[Recv 3 16 1, Clock 90, Send 3 [1, 2] 2, Clock 70] @ ?wa"
  let ?fca = "\<lparr>interface_name = ''eth0'', timeout_ms = 1000, socket_fd = 3, initialized = True,
           stats = PacketStats_init\<rparr>"
  let ?fc = "\<lparr>interface_name = ''eth0'', timeout_ms = 1000, socket_fd = 3, initialized = True,
           stats = \<lparr>packets_sent = 1, packets_received = 1, bytes_sent = 2, bytes_received = 1,
                     errors = 0, avg_latency_us = 2\<rparr>\<rparr>"
  have r: "run ?k (?ops1 @ ?ops2) (FastComms_new ''eth0'' 1000, []) = Some (?fc, ?w)"
    by (simp add: endpoint_defs)
  have m: "run ?k ?ops1 (FastComms_new ''eth0'' 1000, []) = Some (?fca, ?wa)"
    by (simp add: endpoint_defs)
  have nz: "\<forall>e\<in>set ?w. no_zero_io e" by simp
  have bs: "total bytes_of_send ?w < 2 ^ 64" by (simp add: total_def)
  have br: "total bytes_of_recv ?w < 2 ^ 64" by (simp add: total_def)
  have s: "?ops1 @ ?ops2 = ?ops1 @ ?ops2 \<and> (?ops1 = [] \<or> last ?ops1 = Op_reset_statistics) \<and>
          Op_reset_statistics \<notin> set ?ops2 \<and>
          run ?k ?ops1 (FastComms_new ''eth0'' 1000, []) = Some (?fca, ?wa) \<and>
          (\<exists>e\<in>set (take (length ?w - length ?wa) ?w). 1 < bytes_of_send e)"
    using m by simp
  have "packets_sent (stats ?fc) \<le> bytes_sent (stats ?fc) \<and>
        packets_received (stats ?fc) \<le> bytes_received (stats ?fc) \<and>
        packets_sent (stats ?fc) < bytes_sent (stats ?fc)"
    using bytes_at_least_packets [OF r nz bs br, of ?ops1 ?ops2 ?fca ?wa] s by blast
  then show ?thesis
    using r m by simp
qed

text \<open>
  The claim as stated fails: \<^verbatim>\<open>receive_packet\<close> with \<^verbatim>\<open>max_size = 0\<close> while a frame is
  waiting makes \<^verbatim>\<open>recv\<close> return 0, which is counted as one packet of no bytes. Nothing
  has been sent, so the condition on sent packets holds.
\<close>

theorem bytes_at_least_packets_counterexample:
  "run (host_example 2 (Recv_frame [9])) [Op_initialize, Op_receive_packet [] 0]
     (FastComms_new ''eth0'' 1000, []) =
   Some (\<lparr>interface_name = ''eth0'', timeout_ms = 1000, socket_fd = 3, initialized = True,
           stats = \<lparr>packets_sent = 0, packets_received = 1, bytes_sent = 0, bytes_received = 0,
                     errors = 0, avg_latency_us = 0\<rparr>\<rparr>,
         [Recv 3 0 0, Setsockopt_rcvtimeo 3 1 0 0, Bind 3 0, Ioctl_ifindex 3 ''eth0'' 0, Socket 3]) \<and>
   \<not> (1 :: u64) \<le> 0"
  by (simp add: endpoint_defs)

subsection \<open>The stress test\<close>











section \<open>Properties of the validator\<close>

subsection \<open>CRC-32\<close>

lemma funpow8: "(f ^^ 8) x = f (f (f (f (f (f (f (f x)))))))"
  by (simp add: numeral_eq_Suc funpow_swap1)

lemma crc_bit_xor: "crc_bit (r XOR d) = lfsr_step r (bit d 0) XOR drop_bit 1 d"
proof -
  have "(r XOR d) AND 1 \<noteq> 0 \<longleftrightarrow> bit r 0 \<noteq> bit d 0"
    by (simp add: and_one_eq bit_0 mod2_eq_if even_xor_iff)
  then show ?thesis
    by (simp add: crc_bit_def lfsr_step_def ac_simps)
qed

lemma crc_bits_prefix:
  "n \<le> 8 \<Longrightarrow>
   (crc_bit ^^ n) (crc XOR ucast (byte :: u8)) =
     foldl lfsr_step crc (map (bit byte) [0..<n]) XOR drop_bit n (ucast byte)"
proof (induction n)
  case 0
  then show ?case by simp
next
  case (Suc n)
  have b: "bit (drop_bit n (ucast byte :: u32)) 0 = bit byte n"
    using Suc.prems by (simp add: bit_simps)
  have d: "drop_bit 1 (drop_bit n (ucast byte :: u32)) = drop_bit (Suc n) (ucast byte)"
    by (simp add: drop_bit_drop_bit)
  show ?case
    using Suc by (simp add: crc_bit_xor b d)
qed

lemma crc_byte_lfsr: "crc_byte crc byte = foldl lfsr_step crc (map (bit byte) [0..<8])"
proof -
  have "drop_bit 8 (ucast byte :: u32) = 0"
    by (rule bit_eqI) (auto simp: bit_simps dest: bit_imp_le_length)
  then show ?thesis
    using crc_bits_prefix [of 8 crc byte] by (simp add: crc_byte_def)
qed

lemma foldl_crc_byte: "foldl crc_byte crc dat = foldl lfsr_step crc (message_bits dat)"
  by (induction dat arbitrary: crc) (simp_all add: message_bits_def crc_byte_lfsr)

text \<open>
  C8. \<^verbatim>\<open>calculate_crc32\<close> is the reflected CRC-32 with polynomial \<open>0xEDB88320\<close>,
  initial register \<open>0xFFFFFFFF\<close> and final XOR \<open>0xFFFFFFFF\<close>: it agrees with the
  shift register above on every byte sequence. In particular the empty sequence gives
  \<open>0x00000000\<close> and the ASCII bytes of "123456789" give \<open>0xCBF43926\<close>.
\<close>

theorem calculate_crc32_reflected:
  "calculate_crc32 dat = crc32_reflected dat \<and>
   calculate_crc32 [] = 0x00000000 \<and>
   calculate_crc32 (map of_char ''123456789'') = 0xCBF43926"
proof (intro conjI)
  have "(0xFFFFFFFF :: u32) = - 1"
    by simp
  then have "NOT x = x XOR 0xFFFFFFFF" for x :: u32
    by (simp only: bit.xor_one_right)
  then show "calculate_crc32 dat = crc32_reflected dat"
    by (simp add: calculate_crc32_def crc32_reflected_def foldl_crc_byte)
  show "calculate_crc32 [] = 0x00000000"
    by (simp add: calculate_crc32_def)
  show "calculate_crc32 (map of_char ''123456789'') = 0xCBF43926"
    by (simp add: calculate_crc32_def crc_byte_def crc_bit_def funpow8)
qed

subsection \<open>The 16-bit checksum\<close>

lemma unat_ucast_u8_u16: "unat (ucast (a :: u8) :: u16) = unat a"
proof -
  have "unat a < 256" using unsigned_less [of a, where 'a = nat] by simp
  then show ?thesis by (simp add: unsigned_ucast_eq take_bit_nat_eq_self)
qed

lemma unat_high_byte: "unat (push_bit 8 (ucast (a :: u8) :: u16)) = 256 * unat a"
proof -
  have a: "unat a < 256" using unsigned_less [of a, where 'a = nat] by simp
  have "unat (push_bit 8 (ucast a :: u16)) = (unat (ucast a :: u16) * 256) mod 65536"
    by (simp add: push_bit_eq_mult unat_word_ariths(2))
  then show ?thesis using a by (simp add: unat_ucast_u8_u16)
qed

lemma unat_byte_pair:
  "unat (push_bit 8 (ucast (a :: u8) :: u16) + ucast (b :: u8)) = 256 * unat a + unat b"
proof -
  have a: "unat a < 256" using unsigned_less [of a, where 'a = nat] by simp
  have b: "unat b < 256" using unsigned_less [of b, where 'a = nat] by simp
  have "unat (push_bit 8 (ucast a :: u16) + ucast b)
          = (unat (push_bit 8 (ucast a :: u16)) + unat (ucast b :: u16)) mod 65536"
    by (simp add: unat_word_ariths(1))
  then show ?thesis using a b by (simp add: unat_ucast_u8_u16 unat_high_byte)
qed

lemma word16_of_bytes:
  "(ucast (push_bit 8 (ucast (a :: u8) :: u16) OR ucast (b :: u8)) :: u32)
     = word_of_nat (256 * unat a + unat b)"
proof -
  have "push_bit 8 (ucast a :: u16) AND ucast b = 0"
    by (rule bit_eqI) (auto simp: bit_simps dest: bit_imp_le_length)
  then have "push_bit 8 (ucast a :: u16) OR ucast b = push_bit 8 (ucast a) + ucast b"
    by (simp add: disjunctive_add_eq_or)
  then have "(ucast (push_bit 8 (ucast a :: u16) OR ucast b) :: u32)
               = word_of_nat (unat (push_bit 8 (ucast a :: u16) + ucast b))"
    by simp
  then show ?thesis
    by (simp only: unat_byte_pair)
qed

lemma checksum_loop_sum:
  "checksum_loop dat i acc = acc + word_of_nat (sum_list (be_words (drop i dat)))"
proof (induction dat i acc rule: checksum_loop.induct)
  case (1 dat i acc)
  show ?case
  proof (cases "i < length dat")
    case False
    then show ?thesis by (simp add: checksum_loop.simps [of dat i])
  next
    case True
    note i = this
    show ?thesis
    proof (cases "i + 1 < length dat")
      case True
      then have d: "drop i dat = dat ! i # dat ! (i + 1) # drop (i + 2) dat"
        using i by (simp add: Cons_nth_drop_Suc)
      show ?thesis
        using "1.IH" [OF i refl refl] i True
        by (subst checksum_loop.simps) (simp add: d word16_of_bytes Let_def)
    next
      case False
      then have d: "drop i dat = [dat ! i]" "drop (i + 2) dat = []"
        using i by (simp_all flip: Cons_nth_drop_Suc)
      have "(ucast (push_bit 8 (ucast (dat ! i)) :: u16) :: u32) = word_of_nat (256 * unat (dat ! i))"
        using word16_of_bytes [of "dat ! i" 0] by simp
      then show ?thesis
        using "1.IH" [OF i refl refl] i False
        by (subst checksum_loop.simps) (simp add: d Let_def)
    qed
  qed
qed

lemma fold_carries_end_around: "unat (fold_carries acc) = end_around_carry (unat acc)"
proof (induction acc rule: fold_carries.induct)
  case (1 acc)
  show ?case
  proof (cases "drop_bit 16 acc = 0")
    case True
    then have "unat acc div 65536 = 0"
      using unat_high16 [of acc] by simp
    then have "unat acc < 65536" by simp
    then show ?thesis
      using True by (simp add: fold_carries.simps [of acc] end_around_carry.simps [of "unat acc"])
  next
    case False
    then have "unat acc div 65536 \<noteq> 0"
      using unat_high16 [of acc] by (metis unsigned_eq_0_iff)
    then have big: "\<not> unat acc < 65536" by simp
    have "unat acc < 2 ^ 32" using unsigned_less [of acc, where 'a = nat] by simp
    then have "unat acc mod 65536 + unat acc div 65536 < 2 ^ 32" by simp
    then have "unat ((acc AND 0xFFFF) + drop_bit 16 acc) = unat acc mod 65536 + unat acc div 65536"
      by (simp add: unat_word_ariths unat_low16 unat_high16)
    then show ?thesis
      using "1.IH" [OF False] False big
      by (subst fold_carries.simps, subst end_around_carry.simps) simp
  qed
qed


lemma ucast_not_low16: "(ucast (NOT x AND 0xFFFF :: u32) :: u16) = NOT (ucast x)"
proof -
  have "NOT x AND 0xFFFF = take_bit 16 (NOT x)"
    by (simp add: take_bit_eq_mask mask_eq_exp_minus_1)
  moreover have "(ucast (take_bit 16 (NOT x)) :: u16) = NOT (ucast x)"
    by (rule bit_eqI) (auto simp: bit_simps)
  ultimately show ?thesis by simp
qed

lemma be_words_bound: "sum_list (be_words dat) \<le> 65535 * ((length dat + 1) div 2)"
proof (induction dat rule: be_words.induct)
  case 1
  then show ?case by simp
next
  case (2 a)
  have "unat a < 256" using unsigned_less [of a, where 'a = nat] by simp
  then show ?case by simp
next
  case (3 a b rest)
  have "unat a < 256" using unsigned_less [of a, where 'a = nat] by simp
  moreover have "unat b < 256" using unsigned_less [of b, where 'a = nat] by simp
  ultimately show ?case using 3 by simp
qed

lemma simple_checksum_no_overflow:
  assumes "sum_list (be_words dat) < 2 ^ 32"
  shows "calculate_simple_checksum dat = internet_checksum dat"
proof -
  have "unat (checksum_loop dat 0 0) = sum_list (be_words dat)"
    using assms by (simp add: checksum_loop_sum unat_of_nat)
  then have "unat (fold_carries (checksum_loop dat 0 0)) = end_around_carry (sum_list (be_words dat))"
    by (simp add: fold_carries_end_around)
  then have "(ucast (fold_carries (checksum_loop dat 0 0)) :: u16)
               = word_of_nat (end_around_carry (sum_list (be_words dat)))"
    by (metis of_nat_unat)
  then show ?thesis
    by (simp add: calculate_simple_checksum_def internet_checksum_def ucast_not_low16)
qed

text \<open>
  C9 (as amended). For every byte sequence whose 16-bit words add up to less than
  \<open>2\<^sup>3\<^sup>2\<close>, which includes every sequence of at most 131074 bytes,
  \<^verbatim>\<open>calculate_simple_checksum\<close> equals the Internet checksum; and on the empty sequence it
  is \<open>0xFFFF\<close>. Beyond that bound the 32-bit accumulator of the code wraps around and
  the carry out of it is lost.
\<close>

theorem simple_checksum_internet:
  assumes "length dat \<le> 131074 \<or> sum_list (be_words dat) < 2 ^ 32"
  shows "calculate_simple_checksum dat = internet_checksum dat \<and>
         calculate_simple_checksum [] = 0xFFFF"
proof
  have "sum_list (be_words dat) < 2 ^ 32"
  proof (cases "length dat \<le> 131074")
    case True
    then have "(length dat + 1) div 2 \<le> 65537" by simp
    then have "65535 * ((length dat + 1) div 2) \<le> 65535 * 65537" by simp
    then show ?thesis using be_words_bound [of dat] by simp
  next
    case False
    then show ?thesis using assms by simp
  qed
  then show "calculate_simple_checksum dat = internet_checksum dat"
    by (rule simple_checksum_no_overflow)
  show "calculate_simple_checksum [] = 0xFFFF"
    by (simp add: calculate_simple_checksum_def checksum_loop.simps fold_carries.simps)
qed

theorem simple_checksum_internet_witness:
  "(length [0x00, 0x01, 0xF2, 0x03 :: u8] \<le> 131074 \<or>
    sum_list (be_words [0x00, 0x01, 0xF2, 0x03]) < 2 ^ 32) \<and>
   calculate_simple_checksum [0x00, 0x01, 0xF2, 0x03] = 0x0DFB"
proof -
  have h: "length [0x00, 0x01, 0xF2, 0x03 :: u8] \<le> 131074 \<or>
           sum_list (be_words [0x00, 0x01, 0xF2, 0x03]) < 2 ^ 32"
    by simp
  have "internet_checksum [0x00, 0x01, 0xF2, 0x03] = 0x0DFB"
    by (simp add: internet_checksum_def end_around_carry.simps)
  then show ?thesis
    using h simple_checksum_internet [OF h] by simp
qed

lemma be_words_replicate:
  "be_words (replicate (2 * n) x) = replicate n (256 * unat x + unat x)"
  by (induction n) simp_all

text \<open>
  The claim as stated fails: on 131076 bytes \<open>0xFF\<close> the words add up to
  \<open>65538 \<times> 65535\<close>, which is \<open>2\<^sup>3\<^sup>2 + 65534\<close>; the code folds \<open>65534\<close> and returns
  1, the Internet checksum is 0.
\<close>

theorem simple_checksum_overflow_counterexample:
  "calculate_simple_checksum (replicate 131076 0xFF) = 1 \<and>
   internet_checksum (replicate 131076 0xFF) = 0"
proof
  have w: "be_words (replicate 131076 0xFF) = replicate 65538 65535"
    using be_words_replicate [of 65538 "0xFF"] by simp
  have s: "sum_list (be_words (replicate 131076 0xFF)) = 4295032830"
    unfolding w by (simp add: sum_list_replicate)
  have "checksum_loop (replicate 131076 0xFF) 0 0 = 65534"
    by (simp add: checksum_loop_sum s)
  moreover have "fold_carries 65534 = 65534"
    by (simp add: fold_carries.simps)
  ultimately show "calculate_simple_checksum (replicate 131076 0xFF) = 1"
    by (simp add: calculate_simple_checksum_def)
  have "end_around_carry 4295032830 = 65535"
    by (simp add: end_around_carry.simps)
  then show "internet_checksum (replicate 131076 0xFF) = 0"
    by (simp add: internet_checksum_def s)
qed

end
